theory Spec2Isabelle
  imports Complex_Main "HOL-Library.Word"
begin

unbundle bit_operations_syntax

section \<open>Python values\<close>

text \<open>
  A \<open>bytes\<close> object is a list of 8-bit words. Python integers are unbounded and are
  modelled by \<open>int\<close>, whose bit operations follow the same two's-complement reading.
  A \<open>str\<close> is held as the list of the bytes of its UTF-8 encoding. A float is held as
  the real number it denotes. Values that travel in event dictionaries and in JSON
  messages are \<open>jval\<close>; a \<open>dict\<close> is an association list in insertion order.
\<close>

type_synonym byte = "8 word"

datatype jval =
    JNull
  | JBool bool
  | JInt int
  | JFloat real
  | JStr string
  | JList "jval list"
  | JDict "(string \<times> jval) list"

type_synonym pydict = "(string \<times> jval) list"

datatype py_error =
    StructError
  | ValueError
  | TypeError
  | AttributeError
  | IndexError
  | JSONError

text \<open>
  The functions of the standard library that the code calls but does not define are
  parameters of the model. \<open>None\<close> stands for a raised exception.
  \<^item> \<open>zlib_compress\<close> is \<^verbatim>\<open>zlib.compress(payload, level=1)\<close>;
  \<^item> \<open>zlib_decompress\<close> is \<^verbatim>\<open>zlib.decompress(payload)\<close>;
  \<^item> \<open>json_dumps\<close> is \<^verbatim>\<open>json.dumps(v).encode('utf-8')\<close>;
  \<^item> \<open>json_loads\<close> is \<^verbatim>\<open>json.loads(data.decode('utf-8'))\<close>;
  \<^item> \<open>int_of_str\<close> is \<^verbatim>\<open>int(s)\<close> on a string;
  \<^item> \<open>utf8_ignore\<close> is \<^verbatim>\<open>bs.decode('utf-8', errors='ignore')\<close>.
\<close>

record pylib =
  zlib_compress :: "byte list \<Rightarrow> byte list option"
  zlib_decompress :: "byte list \<Rightarrow> byte list option"
  json_dumps :: "jval \<Rightarrow> byte list option"
  json_loads :: "byte list \<Rightarrow> jval option"
  int_of_str :: "string \<Rightarrow> int option"
  utf8_ignore :: "byte list \<Rightarrow> string"

text \<open>\<^verbatim>\<open>s.encode('utf-8')\<close> on a string.\<close>

definition str_bytes :: "string \<Rightarrow> byte list" where
  "str_bytes s = map (\<lambda>c. of_nat (of_char c)) s"

text \<open>\<^verbatim>\<open>d.get(k, default)\<close> on a dictionary.\<close>

definition dict_get :: "pydict \<Rightarrow> string \<Rightarrow> jval \<Rightarrow> jval" where
  "dict_get d k dflt = (case map_of d k of None \<Rightarrow> dflt | Some v \<Rightarrow> v)"

text \<open>\<^verbatim>\<open>int(v)\<close>: a float is truncated towards zero, a string is parsed.\<close>

fun py_int :: "pylib \<Rightarrow> jval \<Rightarrow> py_error + int" where
  "py_int lib (JInt i) = Inr i"
| "py_int lib (JBool b) = Inr (if b then 1 else 0)"
| "py_int lib (JFloat r) = Inr (if 0 \<le> r then \<lfloor>r\<rfloor> else \<lceil>r\<rceil>)"
| "py_int lib (JStr s) = (case int_of_str lib s of None \<Rightarrow> Inl ValueError | Some i \<Rightarrow> Inr i)"
| "py_int lib JNull = Inl TypeError"
| "py_int lib (JList xs) = Inl TypeError"
| "py_int lib (JDict kvs) = Inl TypeError"

text \<open>The truth value of an object, as \<^verbatim>\<open>if v\<close> and \<^verbatim>\<open>bool(v)\<close> take it.\<close>

fun py_truthy :: "jval \<Rightarrow> bool" where
  "py_truthy JNull = False"
| "py_truthy (JBool b) = b"
| "py_truthy (JInt i) = (i \<noteq> 0)"
| "py_truthy (JFloat r) = (r \<noteq> 0)"
| "py_truthy (JStr s) = (s \<noteq> [])"
| "py_truthy (JList xs) = (xs \<noteq> [])"
| "py_truthy (JDict kvs) = (kvs \<noteq> [])"

text \<open>
  \<^verbatim>\<open>table.get(key, default)\<close> on a table with string keys and integer codes: a key that
  is a list or a dictionary is unhashable and raises, any other key that is not in
  the table gives the default.
\<close>

fun table_get :: "(string \<times> int) list \<Rightarrow> jval \<Rightarrow> int \<Rightarrow> py_error + int" where
  "table_get t (JStr s) dflt = Inr (case map_of t s of None \<Rightarrow> dflt | Some c \<Rightarrow> c)"
| "table_get t (JList xs) dflt = Inl TypeError"
| "table_get t (JDict kvs) dflt = Inl TypeError"
| "table_get t v dflt = Inr dflt"

section \<open>The struct module, little-endian without padding\<close>

datatype fmt = FB | FH | FI | FQ | FS nat

datatype sval = VInt int | VBytes "byte list"

fun fmt_size :: "fmt \<Rightarrow> nat" where
  "fmt_size FB = 1"
| "fmt_size FH = 2"
| "fmt_size FI = 4"
| "fmt_size FQ = 8"
| "fmt_size (FS n) = n"

fun le_bytes :: "nat \<Rightarrow> int \<Rightarrow> byte list" where
  "le_bytes 0 v = []"
| "le_bytes (Suc n) v = word_of_int v # le_bytes n (drop_bit 8 v)"

fun le_int :: "byte list \<Rightarrow> int" where
  "le_int [] = 0"
| "le_int (b # bs) = uint b + 256 * le_int bs"

fun pack_field :: "fmt \<Rightarrow> sval \<Rightarrow> py_error + byte list" where
  "pack_field (FS n) (VBytes bs) = Inr (take n bs @ replicate (n - length bs) 0)"
| "pack_field (FS n) (VInt v) = Inl StructError"
| "pack_field f (VBytes bs) = Inl StructError"
| "pack_field f (VInt v) =
     (if 0 \<le> v \<and> v < 2 ^ (8 * fmt_size f) then Inr (le_bytes (fmt_size f) v)
      else Inl StructError)"

fun pack_fields :: "fmt list \<Rightarrow> sval list \<Rightarrow> py_error + byte list" where
  "pack_fields (f # fs) (v # vs) =
     (case pack_field f v of
        Inl e \<Rightarrow> Inl e
      | Inr bs \<Rightarrow> (case pack_fields fs vs of Inl e \<Rightarrow> Inl e | Inr rest \<Rightarrow> Inr (bs @ rest)))"
| "pack_fields [] [] = Inr []"
| "pack_fields fs vs = Inl StructError"

text \<open>\<^verbatim>\<open>struct.pack(fmt, *values)\<close>: the number of values must be the number of fields.\<close>

definition struct_pack :: "fmt list \<Rightarrow> sval list \<Rightarrow> py_error + byte list" where
  "struct_pack fs vs = (if length fs \<noteq> length vs then Inl StructError else pack_fields fs vs)"

fun unpack_fields :: "fmt list \<Rightarrow> byte list \<Rightarrow> sval list" where
  "unpack_fields [] bs = []"
| "unpack_fields (FS n # fs) bs = VBytes (take n bs) # unpack_fields fs (drop n bs)"
| "unpack_fields (f # fs) bs =
     VInt (le_int (take (fmt_size f) bs)) # unpack_fields fs (drop (fmt_size f) bs)"

text \<open>\<^verbatim>\<open>struct.unpack(fmt, data)\<close>: the data must have exactly the size of the format.\<close>

definition struct_unpack :: "fmt list \<Rightarrow> byte list \<Rightarrow> py_error + sval list" where
  "struct_unpack fs bs =
     (if length bs \<noteq> sum_list (map fmt_size fs) then Inl StructError
      else Inr (unpack_fields fs bs))"

section \<open>protocol.py: ProtocolHandler\<close>

definition HEADER_MAGIC :: int where
  "HEADER_MAGIC = 0xAABB"

definition PACKET_TYPES :: "(string \<times> int) list" where
  "PACKET_TYPES =
     [(''MOUSE_MOVEMENT'', 0x01), (''MOUSE_CLICK'', 0x02), (''KEYBOARD_KEY'', 0x03),
      (''SCROLL_EVENT'', 0x04), (''GESTURE_START'', 0x05), (''GESTURE_END'', 0x06),
      (''CONTROL_SWITCH'', 0x07), (''HEARTBEAT'', 0x08)]"

definition MOUSE_BUTTONS :: "(string \<times> int) list" where
  "MOUSE_BUTTONS =
     [(''left'', 0x01), (''right'', 0x02), (''middle'', 0x03), (''x1'', 0x04), (''x2'', 0x05)]"

definition CONTROL_EDGES :: "(string \<times> int) list" where
  "CONTROL_EDGES =
     [(''left'', 0x01), (''right'', 0x02), (''top'', 0x03), (''bottom'', 0x04),
      (''hotkey'', 0x05), (''return_to_pc'', 0x06)]"

record handler =
  packet_sequence :: int
  compression_enabled :: bool
  max_packet_size :: int

definition init_handler :: handler where
  "init_handler = \<lparr>packet_sequence = 0, compression_enabled = True, max_packet_size = 1024\<rparr>"

subsection \<open>Checksum\<close>

text \<open>One round of the inner loop of \<open>calculate_checksum\<close>.\<close>

definition crc_shift :: "int \<Rightarrow> int" where
  "crc_shift crc = (if crc AND 1 \<noteq> 0 then drop_bit 1 crc XOR 0xA001 else drop_bit 1 crc)"

text \<open>The body of the outer loop: the byte is folded in, then eight rounds.\<close>

definition crc_byte :: "int \<Rightarrow> byte \<Rightarrow> int" where
  "crc_byte crc b = (crc_shift ^^ 8) (crc XOR uint b)"

definition calculate_checksum :: "byte list \<Rightarrow> int" where
  "calculate_checksum data = foldl crc_byte 0xFFFF data"

definition verify_checksum :: "byte list \<Rightarrow> py_error + bool" where
  "verify_checksum packet =
     (if length packet < 2 then Inr False
      else case struct_unpack [FH] (drop (length packet - 2) packet) of
        Inl e \<Rightarrow> Inl e
      | Inr vals \<Rightarrow>
          (case vals of
             [] \<Rightarrow> Inl IndexError
           | received_checksum # _ \<Rightarrow>
               Inr (received_checksum
                    = VInt (calculate_checksum (take (length packet - 2) packet)))))"

subsection \<open>Building frames\<close>

text \<open>
  \<open>build_packet\<close> returns the frame and the handler with its counter advanced. A
  failure of \<^verbatim>\<open>zlib.compress\<close> is swallowed by the bare \<^verbatim>\<open>except\<close>.
\<close>

definition build_packet ::
  "pylib \<Rightarrow> handler \<Rightarrow> int \<Rightarrow> byte list \<Rightarrow> py_error + (byte list \<times> handler)" where
  "build_packet lib h packet_type payload =
     (let (packet_type', payload') =
            (if compression_enabled h \<and> length payload > 64 then
               (case zlib_compress lib payload of
                  None \<Rightarrow> (packet_type, payload)
                | Some compressed_payload \<Rightarrow>
                    if length compressed_payload < length payload
                    then (packet_type OR 0x80, compressed_payload)
                    else (packet_type, payload))
             else (packet_type, payload))
      in case struct_pack [FH, FB] [VInt HEADER_MAGIC, VInt packet_type'] of
           Inl e \<Rightarrow> Inl e
         | Inr hdr \<Rightarrow>
             (let packet = hdr @ payload' in
              case struct_pack [FH] [VInt (calculate_checksum packet)] of
                Inl e \<Rightarrow> Inl e
              | Inr ck \<Rightarrow>
                  Inr (packet @ ck,
                       h\<lparr>packet_sequence := (packet_sequence h + 1) mod 65536\<rparr>)))"

definition create_mouse_movement_packet ::
  "pylib \<Rightarrow> handler \<Rightarrow> pydict \<Rightarrow> int \<Rightarrow> py_error + (byte list \<times> handler)" where
  "create_mouse_movement_packet lib h event_data timestamp =
     (case py_int lib (dict_get event_data ''x'' (JInt 0)) of
        Inl e \<Rightarrow> Inl e
      | Inr x \<Rightarrow>
     (case py_int lib (dict_get event_data ''y'' (JInt 0)) of
        Inl e \<Rightarrow> Inl e
      | Inr y \<Rightarrow>
     (case struct_pack [FH, FH, FI, FI, FQ]
             [VInt (packet_sequence h), VInt x, VInt y, VInt timestamp] of
        Inl e \<Rightarrow> Inl e
      | Inr payload \<Rightarrow> build_packet lib h 0x01 payload)))"

definition create_mouse_click_packet ::
  "pylib \<Rightarrow> handler \<Rightarrow> pydict \<Rightarrow> int \<Rightarrow> py_error + (byte list \<times> handler)" where
  "create_mouse_click_packet lib h event_data timestamp =
     (case py_int lib (dict_get event_data ''x'' (JInt 0)) of
        Inl e \<Rightarrow> Inl e
      | Inr x \<Rightarrow>
     (case py_int lib (dict_get event_data ''y'' (JInt 0)) of
        Inl e \<Rightarrow> Inl e
      | Inr y \<Rightarrow>
     (let button = dict_get event_data ''button'' (JStr ''left'');
          pressed = dict_get event_data ''pressed'' (JBool False)
      in case table_get MOUSE_BUTTONS button 0x01 of
        Inl e \<Rightarrow> Inl e
      | Inr button_byte \<Rightarrow>
     (let state_byte = (if py_truthy pressed then 0x01 else 0x00)
      in case struct_pack [FH, FI, FI, FI, FB, FB, FQ]
             [VInt (packet_sequence h), VInt x, VInt y, VInt button_byte, VInt state_byte,
              VInt timestamp] of
        Inl e \<Rightarrow> Inl e
      | Inr payload \<Rightarrow> build_packet lib h 0x02 payload))))"

text \<open>
  In \<open>create_keyboard_packet\<close> the key must be a string: \<^verbatim>\<open>encode\<close> on anything else
  raises. The string is cut to 16 bytes and padded with zero bytes.
\<close>

definition create_keyboard_packet ::
  "pylib \<Rightarrow> handler \<Rightarrow> pydict \<Rightarrow> int \<Rightarrow> py_error + (byte list \<times> handler)" where
  "create_keyboard_packet lib h event_data timestamp =
     (case py_int lib (dict_get event_data ''key_code'' (JInt 0)) of
        Inl e \<Rightarrow> Inl e
      | Inr key_code \<Rightarrow>
     (let pressed = dict_get event_data ''pressed'' (JBool False)
      in case dict_get event_data ''key'' (JStr []) of
        JStr key_str \<Rightarrow>
          (let key_bytes = take 16 (str_bytes key_str);
               key_bytes_padded = key_bytes @ replicate (16 - length key_bytes) (0 :: byte);
               state_byte = (if py_truthy pressed then 0x01 else 0x00);
               modifiers_byte = 0x00
           in case struct_pack [FH, FI, FB, FB, FB, FS 16, FQ]
                  [VInt (packet_sequence h), VInt key_code, VInt state_byte,
                   VInt modifiers_byte, VBytes key_bytes_padded, VInt timestamp] of
             Inl e \<Rightarrow> Inl e
           | Inr payload \<Rightarrow> build_packet lib h 0x03 payload)
      | _ \<Rightarrow> Inl AttributeError))"

definition create_scroll_packet ::
  "pylib \<Rightarrow> handler \<Rightarrow> pydict \<Rightarrow> int \<Rightarrow> py_error + (byte list \<times> handler)" where
  "create_scroll_packet lib h event_data timestamp =
     (case py_int lib (dict_get event_data ''x'' (JInt 0)) of
        Inl e \<Rightarrow> Inl e
      | Inr x \<Rightarrow>
     (case py_int lib (dict_get event_data ''y'' (JInt 0)) of
        Inl e \<Rightarrow> Inl e
      | Inr y \<Rightarrow>
     (case py_int lib (dict_get event_data ''dx'' (JInt 0)) of
        Inl e \<Rightarrow> Inl e
      | Inr dx \<Rightarrow>
     (case py_int lib (dict_get event_data ''dy'' (JInt 0)) of
        Inl e \<Rightarrow> Inl e
      | Inr dy \<Rightarrow>
     (case struct_pack [FH, FI, FI, FH, FH, FH, FQ]
             [VInt (packet_sequence h), VInt x, VInt y, VInt dx, VInt dy, VInt timestamp] of
        Inl e \<Rightarrow> Inl e
      | Inr payload \<Rightarrow> build_packet lib h 0x04 payload)))))"

definition create_control_switch_packet ::
  "pylib \<Rightarrow> handler \<Rightarrow> pydict \<Rightarrow> int \<Rightarrow> py_error + (byte list \<times> handler)" where
  "create_control_switch_packet lib h event_data timestamp =
     (let edge = dict_get event_data ''edge'' (JStr ''left'')
      in case table_get CONTROL_EDGES edge 0x01 of
        Inl e \<Rightarrow> Inl e
      | Inr edge_byte \<Rightarrow>
     (case struct_pack [FH, FB, FB, FB, FQ]
             [VInt (packet_sequence h), VInt edge_byte, VInt 0x00, VInt 0x00, VInt 0x00,
              VInt timestamp] of
        Inl e \<Rightarrow> Inl e
      | Inr payload \<Rightarrow> build_packet lib h 0x07 payload))"

text \<open>
  \<open>create_heartbeat_packet\<close> reads the clock itself; \<open>now_ms\<close> is the value of
  \<^verbatim>\<open>int(time.time() * 1000)\<close> at the call.
\<close>

definition create_heartbeat_packet ::
  "pylib \<Rightarrow> handler \<Rightarrow> int \<Rightarrow> py_error + (byte list \<times> handler)" where
  "create_heartbeat_packet lib h now_ms =
     (case struct_pack [FH, FQ] [VInt (packet_sequence h), VInt now_ms] of
        Inl e \<Rightarrow> Inl e
      | Inr payload \<Rightarrow> build_packet lib h 0x08 payload)"

definition create_json_packet ::
  "pylib \<Rightarrow> handler \<Rightarrow> pydict \<Rightarrow> py_error + (byte list \<times> handler)" where
  "create_json_packet lib h event_data =
     (case json_dumps lib (JDict event_data) of
        None \<Rightarrow> Inl JSONError
      | Some json_data \<Rightarrow>
     (case struct_pack [FH, FH] [VInt (packet_sequence h), VInt (int (length json_data))] of
        Inl e \<Rightarrow> Inl e
      | Inr hdr \<Rightarrow> build_packet lib h 0xFF (hdr @ json_data)))"

text \<open>
  \<open>create_packet\<close>. The event kind is looked up in \<open>PACKET_TYPES\<close> as it is; the
  clock value \<open>now\<close> is \<^verbatim>\<open>time.time()\<close> in seconds and is used when the event has no
  timestamp.
\<close>

definition create_packet ::
  "pylib \<Rightarrow> handler \<Rightarrow> real \<Rightarrow> pydict \<Rightarrow> py_error + (byte list \<times> handler)" where
  "create_packet lib h now event_data =
     (let packet_type = dict_get event_data ''type'' (JStr [])
      in case py_int lib (dict_get event_data ''timestamp'' (JFloat (now * 1000))) of
        Inl e \<Rightarrow> Inl e
      | Inr timestamp \<Rightarrow>
     (case table_get PACKET_TYPES packet_type 0x00 of
        Inl e \<Rightarrow> Inl e
      | Inr type_byte \<Rightarrow>
          if type_byte = 0x00 then create_json_packet lib h event_data
          else if packet_type = JStr ''mouse_move''
            then create_mouse_movement_packet lib h event_data timestamp
          else if packet_type = JStr ''mouse_click''
            then create_mouse_click_packet lib h event_data timestamp
          else if packet_type \<in> set [JStr ''key_press'', JStr ''key_release'']
            then create_keyboard_packet lib h event_data timestamp
          else if packet_type = JStr ''mouse_scroll''
            then create_scroll_packet lib h event_data timestamp
          else if packet_type = JStr ''control_switch''
            then create_control_switch_packet lib h event_data timestamp
          else create_json_packet lib h event_data))"

subsection \<open>Batches\<close>

definition create_batch_packet ::
  "pylib \<Rightarrow> handler \<Rightarrow> pydict list \<Rightarrow> py_error + (byte list \<times> handler)" where
  "create_batch_packet lib h events =
     (case json_dumps lib (JList (map JDict events)) of
        None \<Rightarrow> Inl JSONError
      | Some batch_data \<Rightarrow>
     (case struct_pack [FH, FH] [VInt (packet_sequence h), VInt (int (length batch_data))] of
        Inl e \<Rightarrow> Inl e
      | Inr hdr \<Rightarrow>
     (let payload = hdr @ batch_data
      in case struct_pack [FH, FB] [VInt HEADER_MAGIC, VInt 0xFE] of
        Inl e \<Rightarrow> Inl e
      | Inr magic \<Rightarrow>
     (let packet = magic @ payload
      in case struct_pack [FH] [VInt (calculate_checksum packet)] of
        Inl e \<Rightarrow> Inl e
      | Inr ck \<Rightarrow>
          Inr (packet @ ck, h\<lparr>packet_sequence := (packet_sequence h + 1) mod 65536\<rparr>)))))"

text \<open>
  The loop of \<open>batch_events\<close>. Its state is the handler, the frames produced so far,
  the events of the batch being filled and the size counted for it. Every event is
  first encoded on its own by \<open>create_packet\<close>, which advances the counter of the
  handler, and only the length of that frame is kept.
\<close>

fun batch_loop ::
  "pylib \<Rightarrow> real \<Rightarrow> int \<Rightarrow> pydict list \<Rightarrow> handler \<Rightarrow> byte list list \<Rightarrow> pydict list \<Rightarrow> int
     \<Rightarrow> py_error + (handler \<times> byte list list \<times> pydict list \<times> int)" where
  "batch_loop lib now max_size [] h packets current_batch current_size =
     Inr (h, packets, current_batch, current_size)"
| "batch_loop lib now max_size (event # events) h packets current_batch current_size =
     (case create_packet lib h now event of
        Inl e \<Rightarrow> Inl e
      | Inr (packet, h1) \<Rightarrow>
          if current_size + int (length packet) > max_size \<and> current_batch \<noteq> [] then
            (case create_batch_packet lib h1 current_batch of
               Inl e \<Rightarrow> Inl e
             | Inr (bp, h2) \<Rightarrow>
                 batch_loop lib now max_size events h2 (packets @ [bp]) [event]
                   (int (length packet)))
          else
            batch_loop lib now max_size events h1 packets (current_batch @ [event])
              (current_size + int (length packet)))"

definition batch_events ::
  "pylib \<Rightarrow> handler \<Rightarrow> real \<Rightarrow> pydict list \<Rightarrow> int \<Rightarrow> py_error + (byte list list \<times> handler)" where
  "batch_events lib h now events max_size =
     (case batch_loop lib now max_size events h [] [] 0 of
        Inl e \<Rightarrow> Inl e
      | Inr (h1, packets, current_batch, current_size) \<Rightarrow>
          if current_batch \<noteq> [] then
            (case create_batch_packet lib h1 current_batch of
               Inl e \<Rightarrow> Inl e
             | Inr (bp, h2) \<Rightarrow> Inr (packets @ [bp], h2))
          else Inr (packets, h1))"

subsection \<open>Parsing frames\<close>

text \<open>
  Each parser unpacks the payload and binds the result to the names of its
  assignment; a tuple of another length than the number of names raises.
\<close>

definition parse_mouse_movement_packet :: "byte list \<Rightarrow> py_error + jval" where
  "parse_mouse_movement_packet payload =
     (case struct_unpack [FH, FI, FI, FQ] payload of
        Inl e \<Rightarrow> Inl e
      | Inr vals \<Rightarrow>
          (case vals of
             [VInt seq, VInt x, VInt y, VInt timestamp] \<Rightarrow>
               Inr (JDict [(''type'', JStr ''mouse_move''), (''sequence'', JInt seq),
                           (''x'', JInt x), (''y'', JInt y), (''timestamp'', JInt timestamp)])
           | _ \<Rightarrow> Inl ValueError))"

text \<open>The first name of a table that carries the code, as the search loops find it.\<close>

definition name_of_code :: "(string \<times> int) list \<Rightarrow> int \<Rightarrow> string" where
  "name_of_code t code =
     (case find (\<lambda>(name, c). c = code) t of None \<Rightarrow> ''unknown'' | Some (name, c) \<Rightarrow> name)"

definition parse_mouse_click_packet :: "byte list \<Rightarrow> py_error + jval" where
  "parse_mouse_click_packet payload =
     (case struct_unpack [FH, FI, FI, FI, FB, FB, FQ] payload of
        Inl e \<Rightarrow> Inl e
      | Inr vals \<Rightarrow>
          (case vals of
             [VInt seq, VInt x, VInt y, VInt button, VInt state, VInt timestamp] \<Rightarrow>
               Inr (JDict [(''type'', JStr ''mouse_click''), (''sequence'', JInt seq),
                           (''x'', JInt x), (''y'', JInt y),
                           (''button'', JStr (name_of_code MOUSE_BUTTONS button)),
                           (''pressed'', JBool (state \<noteq> 0)), (''timestamp'', JInt timestamp)])
           | _ \<Rightarrow> Inl ValueError))"

definition parse_keyboard_packet :: "pylib \<Rightarrow> byte list \<Rightarrow> py_error + jval" where
  "parse_keyboard_packet lib payload =
     (case struct_unpack [FH, FI, FB, FB, FB, FS 16, FQ] payload of
        Inl e \<Rightarrow> Inl e
      | Inr vals \<Rightarrow>
          (case vals of
             [VInt seq, VInt key_code, VInt state, VInt modifiers, VBytes key_bytes,
              VInt timestamp] \<Rightarrow>
               (let key_str = utf8_ignore lib (rev (dropWhile (\<lambda>b. b = 0) (rev key_bytes)));
                    event_type = (if state = 0x01 then ''key_press'' else ''key_release'')
                in Inr (JDict [(''type'', JStr event_type), (''sequence'', JInt seq),
                               (''key_code'', JInt key_code), (''key'', JStr key_str),
                               (''pressed'', JBool (state \<noteq> 0)),
                               (''modifiers'', JInt modifiers),
                               (''timestamp'', JInt timestamp)]))
           | _ \<Rightarrow> Inl ValueError))"

definition parse_scroll_packet :: "byte list \<Rightarrow> py_error + jval" where
  "parse_scroll_packet payload =
     (case struct_unpack [FH, FI, FI, FH, FH, FH, FQ] payload of
        Inl e \<Rightarrow> Inl e
      | Inr vals \<Rightarrow>
          (case vals of
             [VInt seq, VInt x, VInt y, VInt dx, VInt dy, VInt timestamp] \<Rightarrow>
               Inr (JDict [(''type'', JStr ''mouse_scroll''), (''sequence'', JInt seq),
                           (''x'', JInt x), (''y'', JInt y), (''dx'', JInt dx),
                           (''dy'', JInt dy), (''timestamp'', JInt timestamp)])
           | _ \<Rightarrow> Inl ValueError))"

definition parse_control_switch_packet :: "byte list \<Rightarrow> py_error + jval" where
  "parse_control_switch_packet payload =
     (case struct_unpack [FH, FB, FB, FB, FQ] payload of
        Inl e \<Rightarrow> Inl e
      | Inr vals \<Rightarrow>
          (case vals of
             [VInt seq, VInt edge, VInt reserved1, VInt reserved2, VInt reserved3,
              VInt timestamp] \<Rightarrow>
               Inr (JDict [(''type'', JStr ''control_switch''), (''sequence'', JInt seq),
                           (''edge'', JStr (name_of_code CONTROL_EDGES edge)),
                           (''timestamp'', JInt timestamp)])
           | _ \<Rightarrow> Inl ValueError))"

definition parse_heartbeat_packet :: "byte list \<Rightarrow> py_error + jval" where
  "parse_heartbeat_packet payload =
     (case struct_unpack [FH, FQ] payload of
        Inl e \<Rightarrow> Inl e
      | Inr vals \<Rightarrow>
          (case vals of
             [VInt seq, VInt timestamp] \<Rightarrow>
               Inr (JDict [(''type'', JStr ''heartbeat''), (''sequence'', JInt seq),
                           (''timestamp'', JInt timestamp)])
           | _ \<Rightarrow> Inl ValueError))"

definition parse_json_packet :: "pylib \<Rightarrow> byte list \<Rightarrow> py_error + jval" where
  "parse_json_packet lib payload =
     (case struct_unpack [FH, FH] (take 4 payload) of
        Inl e \<Rightarrow> Inl e
      | Inr vals \<Rightarrow>
          (case vals of
             [VInt seq, VInt json_len] \<Rightarrow>
               (case json_loads lib (take (nat json_len) (drop 4 payload)) of
                  None \<Rightarrow> Inl JSONError
                | Some v \<Rightarrow> Inr v)
           | _ \<Rightarrow> Inl ValueError))"

text \<open>The dispatch inside the second \<^verbatim>\<open>try\<close> of \<open>parse_packet\<close>.\<close>

definition parse_by_type :: "pylib \<Rightarrow> int \<Rightarrow> byte list \<Rightarrow> py_error + jval option" where
  "parse_by_type lib packet_type payload =
     (if packet_type = 0x01 then map_sum id Some (parse_mouse_movement_packet payload)
      else if packet_type = 0x02 then map_sum id Some (parse_mouse_click_packet payload)
      else if packet_type = 0x03 then map_sum id Some (parse_keyboard_packet lib payload)
      else if packet_type = 0x04 then map_sum id Some (parse_scroll_packet payload)
      else if packet_type = 0x07 then map_sum id Some (parse_control_switch_packet payload)
      else if packet_type = 0x08 then map_sum id Some (parse_heartbeat_packet payload)
      else if packet_type = 0xFF then map_sum id Some (parse_json_packet lib payload)
      else Inr None)"

text \<open>
  \<open>parse_packet\<close>. The result \<open>Inr None\<close> is the return value \<^verbatim>\<open>None\<close>; \<open>Inl e\<close> is
  an exception that leaves the function. The slices \<^verbatim>\<open>packet[:2]\<close>, \<^verbatim>\<open>packet[3:-2]\<close>
  and the index \<^verbatim>\<open>packet[2]\<close> are outside both \<^verbatim>\<open>try\<close> blocks, so what they raise
  is not caught; what the decompression and the parsers raise is caught and turned
  into \<^verbatim>\<open>None\<close>.
\<close>

definition parse_packet :: "pylib \<Rightarrow> byte list \<Rightarrow> py_error + jval option" where
  "parse_packet lib packet =
     (if length packet < 5 then Inr None
      else case struct_unpack [FH] (take 2 packet) of
        Inl e \<Rightarrow> Inl e
      | Inr vals \<Rightarrow>
     (case vals of
        [] \<Rightarrow> Inl IndexError
      | header # _ \<Rightarrow>
          if header \<noteq> VInt HEADER_MAGIC then Inr None
          else
            (case verify_checksum packet of
               Inl e \<Rightarrow> Inl e
             | Inr ok \<Rightarrow>
                 if \<not> ok then Inr None
                 else if \<not> 2 < length packet then Inl IndexError
                 else
                   (let type_byte = uint (packet ! 2);
                        compressed = (type_byte AND 0x80 \<noteq> 0);
                        packet_type = type_byte AND 0x7F;
                        payload = drop 3 (take (length packet - 2) packet)
                    in (case (if compressed then zlib_decompress lib payload
                              else Some payload) of
                          None \<Rightarrow> Inr None
                        | Some payload' \<Rightarrow>
                            (case parse_by_type lib packet_type payload' of
                               Inl e \<Rightarrow> Inr None
                             | Inr r \<Rightarrow> Inr r))))))"

section \<open>connection\_manager.py: ConnectionManager\<close>

text \<open>
  The manager is modelled by the fields the session code reads and writes, together
  with the part of the outside world it acts on: the sockets on which \<^verbatim>\<open>close\<close> has
  been called, the data written to each socket, the signals emitted and the receive
  threads started. A socket is a number. \<open>lock_held\<close> is the state of
  \<^verbatim>\<open>self.lock\<close>, a \<^verbatim>\<open>threading.Lock\<close>: it is not reentrant, so a thread that
  acquires it while holding it blocks for ever. An operation that does not return has
  the value \<open>None\<close>.

  The text of a log line is kept up to its first interpolated value.
\<close>

type_synonym sock = nat

datatype signal = StatusChanged bool string | LogMessage string

record manager =
  client_socket :: "sock option"
  client_address :: "(string \<times> nat) option"
  connected :: bool
  device_name :: jval
  server_running :: bool
  lock_held :: bool
  closed :: "sock list"
  sent :: "(sock \<times> byte list) list"
  signals :: "signal list"
  threads :: "sock list"

definition init_manager :: manager where
  "init_manager =
     \<lparr>client_socket = None, client_address = None, connected = False,
      device_name = JStr [], server_running = False, lock_held = False,
      closed = [], sent = [], signals = [], threads = []\<rparr>"

text \<open>
  The environment decides whether a write to an open socket fails. A write to a
  socket that has been closed always raises.
\<close>

definition send_raises :: "(sock \<Rightarrow> bool) \<Rightarrow> manager \<Rightarrow> sock \<Rightarrow> bool" where
  "send_raises send_fails m s = (s \<in> set (closed m) \<or> send_fails s)"

definition emit :: "signal \<Rightarrow> manager \<Rightarrow> manager" where
  "emit sg m = m\<lparr>signals := signals m @ [sg]\<rparr>"

definition close_socket :: "sock \<Rightarrow> manager \<Rightarrow> manager" where
  "close_socket s m = m\<lparr>closed := closed m @ [s]\<rparr>"

definition disconnect_client :: "manager \<Rightarrow> manager option" where
  "disconnect_client m =
     (if lock_held m then None
      else
        (let m1 = (case client_socket m of
                     None \<Rightarrow> m
                   | Some s \<Rightarrow> (close_socket s m)\<lparr>client_socket := None\<rparr>);
             old_device_name = device_name m1;
             m2 = m1\<lparr>connected := False, device_name := JStr [], client_address := None\<rparr>
         in if py_truthy old_device_name
            then Some (emit (StatusChanged False [])
                         (emit (LogMessage ''Disconnected from '') m2))
            else Some m2))"

text \<open>
  \<open>send_packet\<close> runs its whole body inside \<^verbatim>\<open>with self.lock\<close>; the handler of a
  failed write calls \<open>disconnect_client\<close> from there, with the lock held.
\<close>

definition send_packet ::
  "(sock \<Rightarrow> bool) \<Rightarrow> manager \<Rightarrow> byte list \<Rightarrow> (bool \<times> manager) option" where
  "send_packet send_fails m packet =
     (if lock_held m then None
      else
        (let m1 = m\<lparr>lock_held := True\<rparr>
         in case (if connected m1 then client_socket m1 else None) of
              None \<Rightarrow> Some (False, m1\<lparr>lock_held := False\<rparr>)
            | Some s \<Rightarrow>
                if \<not> send_raises send_fails m1 s
                then Some (True, m1\<lparr>sent := sent m1 @ [(s, packet)], lock_held := False\<rparr>)
                else
                  (case disconnect_client (emit (LogMessage ''Error sending packet: '') m1) of
                     None \<Rightarrow> None
                   | Some m2 \<Rightarrow> Some (False, m2\<lparr>lock_held := False\<rparr>))))"

text \<open>
  \<open>send_json\<close> writes the serialised value and a newline. Every exception is caught:
  a value that cannot be serialised, a missing socket and a failed write all give
  \<^verbatim>\<open>False\<close>.
\<close>

definition send_json ::
  "pylib \<Rightarrow> (sock \<Rightarrow> bool) \<Rightarrow> manager \<Rightarrow> sock option \<Rightarrow> jval \<Rightarrow> bool \<times> manager" where
  "send_json lib send_fails m sock data =
     (case json_dumps lib data of
        None \<Rightarrow> (False, emit (LogMessage ''Error sending JSON: '') m)
      | Some json_data \<Rightarrow>
          (case sock of
             None \<Rightarrow> (False, emit (LogMessage ''Error sending JSON: '') m)
           | Some s \<Rightarrow>
               if send_raises send_fails m s
               then (False, emit (LogMessage ''Error sending JSON: '') m)
               else (True, m\<lparr>sent := sent m @ [(s, json_data @ [0x0A])]\<rparr>)))"

text \<open>
  The message built in each round of \<open>heartbeat_monitor\<close>; \<open>now\<close> is the value of
  \<^verbatim>\<open>time.time()\<close>, the time in seconds since the epoch.
\<close>

definition heartbeat_message :: "real \<Rightarrow> jval" where
  "heartbeat_message now = JDict [(''type'', JStr ''heartbeat''), (''timestamp'', JFloat now)]"

text \<open>
  One round of the loop of \<open>heartbeat_monitor\<close>, after its sleep of
  \<open>HEARTBEAT_INTERVAL\<close> seconds. Nothing inside the \<^verbatim>\<open>try\<close> raises, since
  \<open>send_json\<close> catches everything.
\<close>

definition HEARTBEAT_INTERVAL :: real where
  "HEARTBEAT_INTERVAL = 5.0"

definition heartbeat_round ::
  "pylib \<Rightarrow> (sock \<Rightarrow> bool) \<Rightarrow> real \<Rightarrow> manager \<Rightarrow> manager option" where
  "heartbeat_round lib send_fails now m =
     (if connected m then
        (case send_json lib send_fails m (client_socket m) (heartbeat_message now) of
           (ok, m1) \<Rightarrow> if \<not> ok then disconnect_client m1 else Some m1)
      else Some m)"

text \<open>
  \<open>handle_client_connection\<close>. \<open>response\<close> is what \<open>receive_json\<close> returned for the
  candidate socket: \<open>None\<close> after a timeout, an error or an empty read, the parsed JSON
  value otherwise. \<^verbatim>\<open>response.get\<close> raises on a value that is not a dictionary, and
  \<open>status_changed\<close> is declared with a string argument, so emitting another value
  raises; both land in the outer handler, which closes the candidate socket.
\<close>

definition handshake_message :: "real \<Rightarrow> jval" where
  "handshake_message now =
     JDict [(''type'', JStr ''handshake''), (''version'', JStr ''1.0''),
            (''timestamp'', JFloat now)]"

definition connection_failed :: "sock \<Rightarrow> manager \<Rightarrow> manager" where
  "connection_failed s m =
     close_socket s (emit (LogMessage ''Error handling client connection: '') m)"

definition handle_client_connection ::
  "pylib \<Rightarrow> (sock \<Rightarrow> bool) \<Rightarrow> real \<Rightarrow> manager \<Rightarrow> sock \<Rightarrow> (string \<times> nat) \<Rightarrow> jval option
     \<Rightarrow> manager option" where
  "handle_client_connection lib send_fails now m sock addr response =
     (let m0 = snd (send_json lib send_fails m (Some sock) (handshake_message now))
      in case (case response of None \<Rightarrow> None | Some v \<Rightarrow> if py_truthy v then Some v else None) of
        None \<Rightarrow> Some (emit (LogMessage ''Invalid handshake from '') (close_socket sock m0))
      | Some (JDict d) \<Rightarrow>
          if dict_get d ''type'' JNull = JStr ''handshake_response'' then
            (let name = dict_get d ''device_name'' (JStr ''Unknown Device'')
             in case (if client_socket m0 \<noteq> None then disconnect_client m0 else Some m0) of
                  None \<Rightarrow> None
                | Some m1 \<Rightarrow>
                    if lock_held m1 then None
                    else
                      (let m2 = m1\<lparr>client_socket := Some sock, client_address := Some addr,
                                     device_name := name, connected := True\<rparr>;
                           m3 = emit (LogMessage ''Connected to '') m2
                       in case name of
                            JStr n \<Rightarrow>
                              Some ((emit (StatusChanged True n) m3)
                                      \<lparr>threads := threads m3 @ [sock]\<rparr>)
                          | _ \<Rightarrow> Some (connection_failed sock m3)))
          else Some (emit (LogMessage ''Invalid handshake from '') (close_socket sock m0))
      | Some _ \<Rightarrow> Some (connection_failed sock m0))"

section \<open>Reference definitions\<close>

subsection \<open>The CRC as the specification words it\<close>

text \<open>
  The specification asks for a 16-bit CRC with initial value \<open>0xFFFF\<close> and reflected
  polynomial \<open>0xA001\<close>, taken byte by byte with the least significant bit first. In
  the bit-serial reading every message bit enters the register in turn: the register
  moves one place to the right and the polynomial is added when the bit that left
  differs from the message bit.
\<close>

definition crc16_bit :: "int \<Rightarrow> bool \<Rightarrow> int" where
  "crc16_bit r b = (if odd r \<noteq> b then r div 2 XOR 0xA001 else r div 2)"

definition crc16_byte :: "int \<Rightarrow> byte \<Rightarrow> int" where
  "crc16_byte r x = foldl crc16_bit r (map (bit x) [0..<8])"

definition crc16_spec :: "byte list \<Rightarrow> int" where
  "crc16_spec data = foldl crc16_byte 0xFFFF data"

subsection \<open>Bit errors\<close>

text \<open>Bit \<open>i\<close> of a frame is bit \<open>i mod 8\<close> of its byte \<open>i div 8\<close>.\<close>

definition flip_frame_bit :: "byte list \<Rightarrow> nat \<Rightarrow> byte list" where
  "flip_frame_bit frame i = frame[i div 8 := (frame ! (i div 8)) XOR push_bit (i mod 8) 1]"

subsection \<open>A library instance for concrete runs\<close>

text \<open>
  \<open>ref_text\<close> writes a value the way \<^verbatim>\<open>json.dumps\<close> does with its default separators,
  for the values made of integers, booleans, \<^verbatim>\<open>None\<close>, floats with an integral value
  below \<open>10\<^sup>1\<^sup>6\<close> and strings of printable ASCII characters other than the quote and
  the backslash; \<open>ref_plain\<close> recognises these values. The compression functions of
  \<open>ref_lib\<close> always raise: the concrete runs below keep every payload at 64 bytes or
  less, where the code does not call them.
\<close>

fun dec_nat :: "nat \<Rightarrow> string" where
  "dec_nat n = (if n < 10 then [char_of (48 + n)] else dec_nat (n div 10) @ [char_of (48 + n mod 10)])"

declare dec_nat.simps [simp del]

definition dec_int :: "int \<Rightarrow> string" where
  "dec_int i = (if i < 0 then CHR ''-'' # dec_nat (nat (- i)) else dec_nat (nat i))"

definition plain_char :: "char \<Rightarrow> bool" where
  "plain_char c = (32 \<le> (of_char c :: nat) \<and> (of_char c :: nat) < 127
                   \<and> c \<noteq> CHR 0x22 \<and> c \<noteq> CHR 0x5C)"

fun join_with :: "string \<Rightarrow> string list \<Rightarrow> string" where
  "join_with sep [] = []"
| "join_with sep [x] = x"
| "join_with sep (x # y # ys) = x @ sep @ join_with sep (y # ys)"

primrec ref_plain :: "jval \<Rightarrow> bool" where
  "ref_plain JNull = True"
| "ref_plain (JBool b) = True"
| "ref_plain (JInt i) = True"
| "ref_plain (JFloat r) = (r = of_int \<lfloor>r\<rfloor> \<and> \<bar>r\<bar> < 10 ^ 16)"
| "ref_plain (JStr s) = list_all plain_char s"
| "ref_plain (JList xs) = list_all (\<lambda>b. b) (map ref_plain xs)"
| "ref_plain (JDict kvs) =
     list_all (\<lambda>(k, b). list_all plain_char k \<and> b) (map (map_prod (\<lambda>k. k) ref_plain) kvs)"

primrec ref_text :: "jval \<Rightarrow> string" where
  "ref_text JNull = ''null''"
| "ref_text (JBool b) = (if b then ''true'' else ''false'')"
| "ref_text (JInt i) = dec_int i"
| "ref_text (JFloat r) = dec_int \<lfloor>r\<rfloor> @ ''.0''"
| "ref_text (JStr s) = [CHR 0x22] @ s @ [CHR 0x22]"
| "ref_text (JList xs) = ''['' @ join_with '', '' (map ref_text xs) @ '']''"
| "ref_text (JDict kvs) =
     ''{'' @ join_with '', ''
              (map (\<lambda>(k, t). [CHR 0x22] @ k @ [CHR 0x22] @ '': '' @ t)
                 (map (map_prod (\<lambda>k. k) ref_text) kvs)) @ ''}''"

definition ref_dumps :: "jval \<Rightarrow> byte list option" where
  "ref_dumps v = (if ref_plain v then Some (str_bytes (ref_text v)) else None)"

definition no_bytes :: "byte list \<Rightarrow> byte list option" where
  "no_bytes bs = None"

definition no_json :: "byte list \<Rightarrow> jval option" where
  "no_json bs = None"

definition no_int :: "string \<Rightarrow> int option" where
  "no_int s = None"

definition ascii_text :: "byte list \<Rightarrow> string" where
  "ascii_text bs = map (\<lambda>b. char_of (unat b)) (filter (\<lambda>b. b < 128) bs)"

definition ref_lib :: pylib where
  "ref_lib =
     \<lparr>zlib_compress = no_bytes, zlib_decompress = no_bytes, json_dumps = ref_dumps,
      json_loads = no_json, int_of_str = no_int, utf8_ignore = ascii_text\<rparr>"

subsection \<open>The layout of a frame\<close>

text \<open>
  The bytes that \<open>build_packet\<close> and \<open>create_batch_packet\<close> put together for a type
  byte and a payload, and the handler after a frame has been built.
\<close>

definition frame_of :: "int \<Rightarrow> byte list \<Rightarrow> byte list" where
  "frame_of t p =
     [0xBB, 0xAA, word_of_int t] @ p @ le_bytes 2 (calculate_checksum ([0xBB, 0xAA, word_of_int t] @ p))"

definition bump :: "handler \<Rightarrow> handler" where
  "bump h = h\<lparr>packet_sequence := (packet_sequence h + 1) mod 65536\<rparr>"


subsection \<open>Complete event records\<close>

text \<open>
  The keys of the dictionary that each parser returns, by the kind of the record. A
  record is complete when it is a dictionary that names its kind and has exactly the
  keys of that kind, in the order of the parser.
\<close>

definition record_keys :: "string \<Rightarrow> string list" where
  "record_keys t =
     (if t = ''mouse_move'' then [''type'', ''sequence'', ''x'', ''y'', ''timestamp'']
      else if t = ''mouse_click''
        then [''type'', ''sequence'', ''x'', ''y'', ''button'', ''pressed'', ''timestamp'']
      else if t = ''key_press'' \<or> t = ''key_release''
        then [''type'', ''sequence'', ''key_code'', ''key'', ''pressed'', ''modifiers'',
              ''timestamp'']
      else if t = ''mouse_scroll''
        then [''type'', ''sequence'', ''x'', ''y'', ''dx'', ''dy'', ''timestamp'']
      else if t = ''control_switch'' then [''type'', ''sequence'', ''edge'', ''timestamp'']
      else if t = ''heartbeat'' then [''type'', ''sequence'', ''timestamp'']
      else [])"

definition complete_record :: "jval \<Rightarrow> bool" where
  "complete_record v =
     (case v of
        JDict d \<Rightarrow>
          (case map_of d ''type'' of
             Some (JStr t) \<Rightarrow> record_keys t \<noteq> [] \<and> map fst d = record_keys t
           | _ \<Rightarrow> False)
      | _ \<Rightarrow> False)"

subsection \<open>Runs of encode calls\<close>

text \<open>
  The entry points that build a frame on a codec instance, and a run of consecutive
  calls on one instance: it stops at the first call that raises.
\<close>

datatype encode_call =
    Event pydict real
  | Heartbeat int
  | Batch "pydict list"

fun run_call :: "pylib \<Rightarrow> handler \<Rightarrow> encode_call \<Rightarrow> py_error + (byte list \<times> handler)" where
  "run_call lib h (Event event_data now) = create_packet lib h now event_data"
| "run_call lib h (Heartbeat now_ms) = create_heartbeat_packet lib h now_ms"
| "run_call lib h (Batch events) = create_batch_packet lib h events"

fun run_calls ::
  "pylib \<Rightarrow> handler \<Rightarrow> encode_call list \<Rightarrow> py_error + (byte list list \<times> handler)" where
  "run_calls lib h [] = Inr ([], h)"
| "run_calls lib h (c # cs) =
     (case run_call lib h c of
        Inl e \<Rightarrow> Inl e
      | Inr (frame, h1) \<Rightarrow>
          (case run_calls lib h1 cs of
             Inl e \<Rightarrow> Inl e
           | Inr (frames, h2) \<Rightarrow> Inr (frame # frames, h2)))"

text \<open>
  A frame carries the sequence number \<open>s\<close> when it is the frame of a payload whose
  first field is \<open>s\<close>, sent as it is or in its compressed form.
\<close>

definition carries_sequence :: "pylib \<Rightarrow> byte list \<Rightarrow> int \<Rightarrow> bool" where
  "carries_sequence lib frame s =
     (\<exists>t rest. frame = frame_of t (le_bytes 2 s @ rest)
        \<or> (\<exists>c. zlib_compress lib (le_bytes 2 s @ rest) = Some c \<and> frame = frame_of t c))"

subsection \<open>Concrete events\<close>

text \<open>
  A mouse movement whose JSON text is 59 bytes long, and the event of scenario A of
  the specification.
\<close>

definition move_event :: pydict where
  "move_event = [(''type'', JStr ''mouse_move''), (''x'', JInt 10), (''y'', JInt 20),
                 (''timestamp'', JInt 1000)]"

definition scenario_A :: pydict where
  "scenario_A = [(''type'', JStr ''mouse_move''), (''x'', JInt 100), (''y'', JInt 200),
                 (''timestamp'', JInt 1000)]"

text \<open>
  The payload of a heartbeat with sequence number 7 and timestamp 1000, and a handler
  whose counter stands at its last value.
\<close>

definition heartbeat_payload_7 :: "byte list" where
  "heartbeat_payload_7 = [7, 0, 0xE8, 3, 0, 0, 0, 0, 0, 0]"

definition wrap_handler :: handler where
  "wrap_handler = \<lparr>packet_sequence = 65535, compression_enabled = True, max_packet_size = 1024\<rparr>"

section \<open>Properties of the struct functions and of the checksum\<close>

lemma struct_unpack_H: "length bs = 2 \<Longrightarrow> \<exists>v. struct_unpack [FH] bs = Inr [VInt v]"
  by (simp add: struct_unpack_def)

lemma verify_checksum_total: "\<exists>b. verify_checksum packet = Inr b"
proof (cases "length packet < 2")
  case True
  then have "verify_checksum packet = Inr False" by (simp add: verify_checksum_def)
  then show ?thesis ..
next
  case False
  then have "length (drop (length packet - 2) packet) = 2" by simp
  from struct_unpack_H [OF this] obtain v
    where "struct_unpack [FH] (drop (length packet - 2) packet) = Inr [VInt v]" ..
  with False show ?thesis by (simp add: verify_checksum_def)
qed

lemma parse_packet_total: "\<exists>r. parse_packet lib packet = Inr r"
proof (cases "length packet < 5")
  case True
  then show ?thesis by (simp add: parse_packet_def)
next
  case False
  then have "length (take 2 packet) = 2" by simp
  from struct_unpack_H [OF this] obtain v
    where u: "struct_unpack [FH] (take 2 packet) = Inr [VInt v]" ..
  obtain b where c: "verify_checksum packet = Inr b"
    using verify_checksum_total by blast
  from False have l: "2 < length packet" by simp
  show ?thesis
    using False u c l
    by (simp add: parse_packet_def Let_def split: option.split sum.split)
qed

lemma parse_by_type_7F: "parse_by_type lib 0x7F payload = Inr None"
  by (simp add: parse_by_type_def)

lemma parse_packet_FF:
  assumes "2 < length packet" and "packet ! 2 = 0xFF"
  shows "parse_packet lib packet = Inr None"
proof (cases "length packet < 5")
  case True
  then show ?thesis by (simp add: parse_packet_def)
next
  case False
  then have "length (take 2 packet) = 2" by simp
  from struct_unpack_H [OF this] obtain v
    where u: "struct_unpack [FH] (take 2 packet) = Inr [VInt v]" ..
  obtain b where c: "verify_checksum packet = Inr b"
    using verify_checksum_total by blast
  have a: "uint (0xFF :: byte) AND 0x80 \<noteq> 0" by simp
  have b: "uint (0xFF :: byte) AND 0x7F = 0x7F" by simp
  show ?thesis
    using False assms u c a b
    by (simp add: parse_packet_def Let_def parse_by_type_7F split: option.split)
qed

lemma crc_shift_alt:
  "crc_shift c = (c div 2) XOR (if odd c then 0xA001 else 0)"
  by (auto simp add: crc_shift_def and_one_eq drop_bit_eq_div)

lemma crc_shift_range:
  assumes "0 \<le> c" and "c < 65536"
  shows "0 \<le> crc_shift c \<and> crc_shift c < 65536"
proof -
  have d: "0 \<le> c div 2" "c div 2 < 2 ^ 16" using assms by simp_all
  have "(c div 2) XOR 0xA001 < 2 ^ 16"
    by (rule XOR_upper) (use d in simp_all)
  with d assms show ?thesis by (simp add: crc_shift_alt)
qed

lemma not_bit15_small:
  assumes "0 \<le> (k::int)" and "k < 32768"
  shows "\<not> bit k 15"
proof -
  have "k div 2 ^ 15 = 0" using assms by simp
  then show ?thesis by (simp add: bit_iff_odd)
qed

lemma bit15_poly: "bit (0xA001 :: int) 15"
  by (simp add: bit_iff_odd)

lemma crc_shift_bit15:
  assumes "0 \<le> c" and "c < 65536"
  shows "bit (crc_shift c) 15 \<longleftrightarrow> odd c"
proof -
  have "\<not> bit (c div 2) 15"
    by (rule not_bit15_small) (use assms in simp_all)
  then show ?thesis using bit15_poly by (simp add: crc_shift_alt bit_xor_iff)
qed

lemma xor_cancel_int: "(x::int) XOR k = y XOR k \<Longrightarrow> x = y"
proof -
  assume "x XOR k = y XOR k"
  then have "(x XOR k) XOR k = (y XOR k) XOR k" by simp
  then show "x = y" by (simp add: xor.assoc)
qed

lemma crc_shift_inj:
  assumes "0 \<le> a" "a < 65536" "0 \<le> b" "b < 65536" "crc_shift a = crc_shift b"
  shows "a = b"
proof -
  have p: "odd a \<longleftrightarrow> odd b"
    using crc_shift_bit15 [of a] crc_shift_bit15 [of b] assms by simp
  have "a div 2 XOR (if odd b then 0xA001 else 0) = b div 2 XOR (if odd b then 0xA001 else 0)"
    using assms(5) p by (simp add: crc_shift_alt)
  then have "a div 2 = b div 2" by (rule xor_cancel_int)
  with p show ?thesis
    by (metis odd_two_times_div_two_succ even_two_times_div_two)
qed

lemma crc_rounds_range:
  "0 \<le> c \<Longrightarrow> c < 65536 \<Longrightarrow> 0 \<le> (crc_shift ^^ n) c \<and> (crc_shift ^^ n) c < 65536"
  by (induction n) (simp_all add: crc_shift_range)

lemma crc_rounds_inj:
  "0 \<le> a \<Longrightarrow> a < 65536 \<Longrightarrow> 0 \<le> b \<Longrightarrow> b < 65536
     \<Longrightarrow> (crc_shift ^^ n) a = (crc_shift ^^ n) b \<Longrightarrow> a = b"
proof (induction n)
  case 0
  then show ?case by simp
next
  case (Suc n)
  have "(crc_shift ^^ n) a = (crc_shift ^^ n) b"
    by (rule crc_shift_inj)
      (use Suc.prems crc_rounds_range [of a n] crc_rounds_range [of b n] in simp_all)
  with Suc show ?case by simp
qed

lemma xor_byte_range:
  assumes "0 \<le> c" and "c < 65536"
  shows "0 \<le> c XOR uint (b :: byte) \<and> c XOR uint b < 65536"
proof -
  have "uint b < 2 ^ 8" using uint_lt2p [of b] by simp
  then have "uint b < 2 ^ 16" by simp
  have "c XOR uint b < 2 ^ 16"
    by (rule XOR_upper) (use assms \<open>uint b < 2 ^ 16\<close> in simp_all)
  with assms show ?thesis by simp
qed

lemma crc_byte_range:
  "0 \<le> c \<Longrightarrow> c < 65536 \<Longrightarrow> 0 \<le> crc_byte c b \<and> crc_byte c b < 65536"
  unfolding crc_byte_def by (rule crc_rounds_range) (use xor_byte_range [of c b] in simp_all)

lemma crc_byte_inj_state:
  assumes "0 \<le> a" "a < 65536" "0 \<le> c" "c < 65536" "crc_byte a b = crc_byte c b"
  shows "a = c"
proof -
  have "a XOR uint b = c XOR uint b"
    by (rule crc_rounds_inj [of _ _ 8])
      (use assms xor_byte_range [of a b] xor_byte_range [of c b] in \<open>simp_all add: crc_byte_def\<close>)
  then show ?thesis by (rule xor_cancel_int)
qed

lemma crc_byte_inj_byte:
  assumes "0 \<le> c" "c < 65536" "crc_byte c x = crc_byte c y"
  shows "x = y"
proof -
  have "c XOR uint x = c XOR uint y"
    by (rule crc_rounds_inj [of _ _ 8])
      (use assms xor_byte_range [of c x] xor_byte_range [of c y] in \<open>simp_all add: crc_byte_def\<close>)
  then have "uint x XOR c = uint y XOR c" by (simp add: xor.commute)
  then have "uint x = uint y" by (rule xor_cancel_int)
  then show ?thesis by (rule word_uint_eqI)
qed

lemma foldl_crc_range:
  "0 \<le> c \<Longrightarrow> c < 65536 \<Longrightarrow> 0 \<le> foldl crc_byte c bs \<and> foldl crc_byte c bs < 65536"
  by (induction bs arbitrary: c) (simp_all add: crc_byte_range)

lemma foldl_crc_inj:
  "0 \<le> a \<Longrightarrow> a < 65536 \<Longrightarrow> 0 \<le> c \<Longrightarrow> c < 65536
     \<Longrightarrow> foldl crc_byte a bs = foldl crc_byte c bs \<Longrightarrow> a = c"
proof (induction bs arbitrary: a c)
  case Nil
  then show ?case by simp
next
  case (Cons b bs)
  have "crc_byte a b = crc_byte c b"
    by (rule Cons.IH)
      (use Cons.prems crc_byte_range [of a b] crc_byte_range [of c b] in simp_all)
  then show ?case by (rule crc_byte_inj_state [of a c b, rotated 4]) (use Cons.prems in simp_all)
qed

lemma calculate_checksum_range:
  "0 \<le> calculate_checksum data \<and> calculate_checksum data < 65536"
  unfolding calculate_checksum_def by (rule foldl_crc_range) simp_all

lemma calculate_checksum_one_byte:
  assumes "calculate_checksum (pre @ x # post) = calculate_checksum (pre @ y # post)"
  shows "x = y"
proof -
  let ?c = "foldl crc_byte 0xFFFF pre"
  have r: "0 \<le> ?c \<and> ?c < 65536" by (rule foldl_crc_range) simp_all
  have "foldl crc_byte (crc_byte ?c x) post = foldl crc_byte (crc_byte ?c y) post"
    using assms by (simp add: calculate_checksum_def)
  then have "crc_byte ?c x = crc_byte ?c y"
    by (rule foldl_crc_inj [of _ _ post, rotated 4])
      (use r crc_byte_range [of ?c x] crc_byte_range [of ?c y] in simp_all)
  then show ?thesis by (rule crc_byte_inj_byte [of ?c x y, rotated 2]) (use r in simp_all)
qed

lemma div_less_256: "(v::int) < 256 * c \<Longrightarrow> v div 256 < c"
  by presburger

lemma magic_low_byte: "(word_of_int 0xAABB :: byte) = 0xBB"
  by simp

lemma length_le_bytes: "length (le_bytes n v) = n"
  by (induction n arbitrary: v) simp_all

lemma le_int_le_bytes:
  "0 \<le> v \<Longrightarrow> v < 2 ^ (8 * n) \<Longrightarrow> le_int (le_bytes n v) = v"
proof (induction n arbitrary: v)
  case 0
  then show ?case by simp
next
  case (Suc n)
  have "v < 256 * 2 ^ (8 * n)"
    using Suc.prems by (simp add: power_add)
  then have "v div 256 < 2 ^ (8 * n)"
    by (rule div_less_256)
  then have "le_int (le_bytes n (v div 256)) = v div 256"
    using Suc.prems by (intro Suc.IH) simp_all
  moreover have "uint (word_of_int v :: byte) = v mod 256"
    by (simp add: uint_word_of_int take_bit_eq_mod)
  ultimately show ?case by (simp add: drop_bit_eq_div)
qed

lemma struct_pack_H:
  "struct_pack [FH] [VInt c] = (if 0 \<le> c \<and> c < 65536 then Inr (le_bytes 2 c) else Inl StructError)"
  by (simp add: struct_pack_def)

lemma struct_pack_HB:
  "struct_pack [FH, FB] [VInt HEADER_MAGIC, VInt t] =
     (if 0 \<le> t \<and> t < 256 then Inr [0xBB, 0xAA, word_of_int t] else Inl StructError)"
proof -
  have "le_bytes 2 0xAABB = [0xBB, 0xAA]"
    using magic_low_byte by (simp add: numeral_2_eq_2 drop_bit_eq_div del: word_of_int_numeral)
  then show ?thesis
    by (simp add: struct_pack_def HEADER_MAGIC_def)
qed

lemma struct_pack_HH:
  "struct_pack [FH, FH] [VInt a, VInt b] =
     (if 0 \<le> a \<and> a < 65536 \<and> 0 \<le> b \<and> b < 65536 then Inr (le_bytes 2 a @ le_bytes 2 b)
      else Inl StructError)"
  by (simp add: struct_pack_def)

lemma struct_unpack_H_eq:
  "length bs = 2 \<Longrightarrow> struct_unpack [FH] bs = Inr [VInt (le_int bs)]"
  by (simp add: struct_unpack_def)

lemma struct_pack_checksum:
  "struct_pack [FH] [VInt (calculate_checksum d)] = Inr (le_bytes 2 (calculate_checksum d))"
  using calculate_checksum_range [of d] by (simp add: struct_pack_H)

lemma frame_tail:
  "(case struct_pack [FH, FB] [VInt HEADER_MAGIC, VInt t] of
      Inl e \<Rightarrow> Inl e
    | Inr hdr \<Rightarrow>
        (let packet = hdr @ p in
         case struct_pack [FH] [VInt (calculate_checksum packet)] of
           Inl e \<Rightarrow> Inl e
         | Inr ck \<Rightarrow> Inr (packet @ ck, h')))
   = (if 0 \<le> t \<and> t < 256 then Inr (frame_of t p, h') else Inl StructError)"
proof -
  have c: "struct_pack [FH] [VInt (calculate_checksum ([0xBB, 0xAA, word_of_int t] @ p))]
        = Inr (le_bytes 2 (calculate_checksum ([0xBB, 0xAA, word_of_int t] @ p)))"
    by (rule struct_pack_checksum)
  show ?thesis
    using c by (simp add: struct_pack_HB frame_of_def)
qed

lemma build_packet_plain:
  assumes "\<not> (compression_enabled h \<and> 64 < length payload)" "0 \<le> t" "t < 256"
  shows "build_packet lib h t payload = Inr (frame_of t payload, bump h)"
proof -
  have "(if compression_enabled h \<and> 64 < length payload then
               (case zlib_compress lib payload of
                  None \<Rightarrow> (t, payload)
                | Some compressed_payload \<Rightarrow>
                    if length compressed_payload < length payload
                    then (t OR 0x80, compressed_payload)
                    else (t, payload))
             else (t, payload)) = (t, payload)"
    using assms(1) by (simp only: if_False)
  then show ?thesis
    using assms(2,3) by (simp add: build_packet_def bump_def Let_def frame_tail)
qed

lemma flipped_byte_differs:
  assumes "j < 8"
  shows "(x :: byte) XOR push_bit j 1 \<noteq> x"
proof
  assume "x XOR push_bit j 1 = x"
  then have "bit (x XOR push_bit j 1) j = bit x j" by simp
  with assms show False by (simp add: bit_xor_iff bit_push_bit_iff bit_exp_iff)
qed


lemma build_packet_cases:
  assumes "build_packet lib h t payload = Inr (frame, h')"
  shows "h' = bump h \<and>
         (\<exists>t' p'. 0 \<le> t' \<and> t' < 256 \<and> frame = frame_of t' p' \<and>
            ((t' = t \<and> p' = payload) \<or>
             (t' = t OR 0x80 \<and> compression_enabled h \<and> 64 < length payload
              \<and> zlib_compress lib payload = Some p' \<and> length p' < length payload)))"
proof -
  obtain t' p' where ch:
    "(if compression_enabled h \<and> 64 < length payload then
               (case zlib_compress lib payload of
                  None \<Rightarrow> (t, payload)
                | Some compressed_payload \<Rightarrow>
                    if length compressed_payload < length payload
                    then (t OR 0x80, compressed_payload)
                    else (t, payload))
             else (t, payload)) = (t', p')"
    by fastforce
  from ch have alt: "(t' = t \<and> p' = payload) \<or>
             (t' = t OR 0x80 \<and> compression_enabled h \<and> 64 < length payload
              \<and> zlib_compress lib payload = Some p' \<and> length p' < length payload)"
    by (auto split: if_splits option.splits)
  from ch have "build_packet lib h t payload
      = (if 0 \<le> t' \<and> t' < 256 then Inr (frame_of t' p', bump h) else Inl StructError)"
    by (simp add: build_packet_def Let_def frame_tail bump_def)
  with assms have "0 \<le> t' \<and> t' < 256 \<and> frame = frame_of t' p' \<and> h' = bump h"
    by (auto split: if_splits)
  with alt show ?thesis by blast
qed

lemma length_frame_of: "length (frame_of t p) = 5 + length p"
  by (simp add: frame_of_def length_le_bytes)

lemma frame_of_type: "frame_of t p ! 2 = word_of_int t"
  by (simp add: frame_of_def)

lemma le_int_range: "0 \<le> le_int bs \<and> le_int bs < 256 ^ length bs"
proof (induction bs)
  case Nil
  then show ?case by simp
next
  case (Cons b bs)
  have "0 \<le> uint b" "uint b < 256" using uint_lt2p [of b] by simp_all
  moreover from Cons have "0 \<le> le_int bs" "le_int bs + 1 \<le> 256 ^ length bs" by simp_all
  ultimately have "0 \<le> uint b + 256 * le_int bs"
    and "uint b + 256 * le_int bs < 256 * 256 ^ length bs" by linarith+
  then show ?case by simp
qed

lemma byte_split:
  assumes "0 \<le> (a::int)" "a < 256" "0 \<le> b" "b < 256" "a + 256 * x = b + 256 * y"
  shows "x = y \<and> a = b"
proof -
  have "(a + 256 * x) div 256 = x" using assms(1,2) by simp
  moreover have "(b + 256 * y) div 256 = y" using assms(3,4) by simp
  ultimately have "x = y" using assms(5) by simp
  with assms(5) show ?thesis by simp
qed

lemma le_int_inj:
  "length xs = length ys \<Longrightarrow> le_int xs = le_int ys \<Longrightarrow> xs = ys"
proof (induction xs ys rule: list_induct2)
  case Nil
  then show ?case by simp
next
  case (Cons x xs y ys)
  have bx: "0 \<le> uint x" "uint x < 256" using uint_lt2p [of x] by simp_all
  have by': "0 \<le> uint y" "uint y < 256" using uint_lt2p [of y] by simp_all
  from Cons.prems have e: "uint x + 256 * le_int xs = uint y + 256 * le_int ys" by simp
  have "le_int xs = le_int ys \<and> uint x = uint y"
    by (rule byte_split [OF bx by' e])
  with Cons.IH show ?case by (simp add: word_uint_eq_iff)
qed

lemma verify_checksum_corrupt:
  assumes f: "f = body @ le_bytes 2 (calculate_checksum body)"
      and k: "k < length f" and b: "b \<noteq> f ! k"
  shows "verify_checksum (f[k := b]) = Inr False"
proof -
  let ?ck = "le_bytes 2 (calculate_checksum body)"
  have lck: "length ?ck = 2" by (rule length_le_bytes)
  have ick: "le_int ?ck = calculate_checksum body"
    using calculate_checksum_range [of body] by (simp add: le_int_le_bytes)
  show ?thesis
  proof (cases "k < length body")
    case True
    have u: "f[k := b] = body[k := b] @ ?ck"
      using True by (simp add: f list_update_append)
    have d: "calculate_checksum (body[k := b]) \<noteq> calculate_checksum body"
    proof
      assume "calculate_checksum (body[k := b]) = calculate_checksum body"
      then have "calculate_checksum (take k body @ b # drop (Suc k) body)
                 = calculate_checksum (take k body @ body ! k # drop (Suc k) body)"
        using True by (simp add: upd_conv_take_nth_drop id_take_nth_drop [symmetric])
      then have "b = body ! k" by (rule calculate_checksum_one_byte)
      with b True show False by (simp add: f nth_append)
    qed
    show ?thesis
      using d lck ick by (simp add: u verify_checksum_def struct_unpack_H_eq)
  next
    case False
    let ?ck' = "?ck[k - length body := b]"
    have u: "f[k := b] = body @ ?ck'"
      using False by (simp add: f list_update_append)
    have lck': "length ?ck' = 2" using lck by simp
    have "?ck' \<noteq> ?ck"
    proof
      assume "?ck' = ?ck"
      then have "?ck' ! (k - length body) = ?ck ! (k - length body)" by simp
      moreover have "k - length body < length ?ck" using k False by (simp add: f)
      ultimately have "b = ?ck ! (k - length body)" by simp
      with b False show False by (simp add: f nth_append)
    qed
    then have "le_int ?ck' \<noteq> le_int ?ck"
      using le_int_inj [of ?ck' ?ck] lck lck' by auto
    then show ?thesis
      using lck' ick by (simp add: u verify_checksum_def struct_unpack_H_eq)
  qed
qed

lemma parse_packet_bad_checksum:
  assumes "verify_checksum packet = Inr False"
  shows "parse_packet lib packet = Inr None"
proof (cases "length packet < 5")
  case True
  then show ?thesis by (simp add: parse_packet_def)
next
  case False
  then have "length (take 2 packet) = 2" by simp
  then have "struct_unpack [FH] (take 2 packet) = Inr [VInt (le_int (take 2 packet))]"
    by (rule struct_unpack_H_eq)
  with False assms show ?thesis by (simp add: parse_packet_def)
qed

lemma flip_rejected:
  assumes "i < 8 * length (frame_of t p)"
  shows "parse_packet lib (flip_frame_bit (frame_of t p) i) = Inr None"
proof -
  have k: "i div 8 < length (frame_of t p)" using assms by simp
  have b: "frame_of t p ! (i div 8) XOR push_bit (i mod 8) 1 \<noteq> frame_of t p ! (i div 8)"
    by (rule flipped_byte_differs) simp
  have f: "frame_of t p = ([0xBB, 0xAA, word_of_int t] @ p)
             @ le_bytes 2 (calculate_checksum ([0xBB, 0xAA, word_of_int t] @ p))"
    by (simp add: frame_of_def)
  have "verify_checksum (flip_frame_bit (frame_of t p) i) = Inr False"
    unfolding flip_frame_bit_def by (rule verify_checksum_corrupt [OF f k b])
  then show ?thesis by (rule parse_packet_bad_checksum)
qed

section \<open>Decoding\<close>

lemma verify_checksum_frame_of: "verify_checksum (frame_of t p) = Inr True"
proof -
  let ?body = "[0xBB, 0xAA, word_of_int t] @ p"
  have "le_int (le_bytes 2 (calculate_checksum ?body)) = calculate_checksum ?body"
    using calculate_checksum_range [of ?body] by (simp add: le_int_le_bytes)
  then show ?thesis
    by (simp add: frame_of_def verify_checksum_def struct_unpack_H_eq length_le_bytes)
qed

lemma low7_small:
  assumes "0 \<le> (t::int)" "t < 128"
  shows "t AND 0x80 = 0" and "t AND 0x7F = t"
proof -
  have "t div 2 ^ 7 = 0" using assms by simp
  then have "\<not> bit t 7" by (simp add: bit_iff_odd)
  then show "t AND 0x80 = 0" using and_exp_eq_0_iff_not_bit [of t 7] by simp
  have "take_bit 7 t = t" using assms by (simp add: take_bit_int_eq_self)
  then have "t AND mask 7 = t" by (simp add: take_bit_eq_mask)
  then show "t AND 0x7F = t" by (simp add: mask_eq_exp_minus_1)
qed

lemma parse_packet_frame_of:
  assumes "0 \<le> t" "t < 128"
  shows "parse_packet lib (frame_of t p)
         = (case parse_by_type lib t p of Inl e \<Rightarrow> Inr None | Inr r \<Rightarrow> Inr r)"
proof -
  have a: "uint (word_of_int t :: byte) = t"
    using assms by (simp add: uint_word_of_int take_bit_int_eq_self)
  have u: "struct_unpack [FH] (take 2 (frame_of t p)) = Inr [VInt HEADER_MAGIC]"
    by (simp add: frame_of_def struct_unpack_H_eq HEADER_MAGIC_def)
  have ty: "uint (frame_of t p ! 2) = t" using a by (simp add: frame_of_type)
  have pl: "drop 3 (take (length (frame_of t p) - 2) (frame_of t p)) = p"
    by (simp add: frame_of_def length_le_bytes)
  have len: "\<not> length (frame_of t p) < 5" "2 < length (frame_of t p)"
    by (simp_all add: length_frame_of)
  show ?thesis
    unfolding parse_packet_def
    by (simp only: len u ty pl verify_checksum_frame_of low7_small [OF assms] Let_def
          if_False if_True sum.case list.case simp_thms option.case)
qed


lemma parse_mouse_movement_complete:
  "parse_mouse_movement_packet payload = Inr v \<Longrightarrow> complete_record v"
  by (auto simp add: parse_mouse_movement_packet_def complete_record_def record_keys_def
        split: sum.splits list.splits sval.splits)

lemma parse_mouse_click_complete:
  "parse_mouse_click_packet payload = Inr v \<Longrightarrow> complete_record v"
  by (auto simp add: parse_mouse_click_packet_def complete_record_def record_keys_def
        split: sum.splits list.splits sval.splits)

lemma parse_keyboard_complete:
  "parse_keyboard_packet lib payload = Inr v \<Longrightarrow> complete_record v"
  by (auto simp add: parse_keyboard_packet_def complete_record_def record_keys_def Let_def
        split: sum.splits list.splits sval.splits)

lemma parse_scroll_complete:
  "parse_scroll_packet payload = Inr v \<Longrightarrow> complete_record v"
  by (auto simp add: parse_scroll_packet_def complete_record_def record_keys_def
        split: sum.splits list.splits sval.splits)

lemma parse_control_switch_complete:
  "parse_control_switch_packet payload = Inr v \<Longrightarrow> complete_record v"
  by (auto simp add: parse_control_switch_packet_def complete_record_def record_keys_def
        split: sum.splits list.splits sval.splits)

lemma parse_heartbeat_complete:
  "parse_heartbeat_packet payload = Inr v \<Longrightarrow> complete_record v"
  by (auto simp add: parse_heartbeat_packet_def complete_record_def record_keys_def
        split: sum.splits list.splits sval.splits)

lemma low7_not_FF: "uint (b :: byte) AND 0x7F \<noteq> 0xFF"
proof
  assume e: "uint b AND 0x7F = 0xFF"
  have "uint b AND 0x7F \<le> 0x7F" by (rule AND_upper2) simp
  with e show False by simp
qed

lemma parse_by_type_complete:
  assumes "pt \<noteq> 0xFF" "parse_by_type lib pt payload = Inr (Some v)"
  shows "complete_record v"
  using assms
  by (auto simp add: parse_by_type_def map_sum_def split: if_splits sum.splits
      dest: parse_mouse_movement_complete parse_mouse_click_complete parse_keyboard_complete
        parse_scroll_complete parse_control_switch_complete parse_heartbeat_complete)

lemma parse_packet_complete:
  assumes "parse_packet lib packet = Inr (Some v)"
  shows "complete_record v"
proof -
  from assms obtain pl where "parse_by_type lib (uint (packet ! 2) AND 0x7F) pl = Inr (Some v)"
    by (auto simp add: parse_packet_def Let_def split: if_splits sum.splits list.splits option.splits)
  then show ?thesis using low7_not_FF by (rule parse_by_type_complete [rotated])
qed

text \<open>
  C10. \<open>parse_packet\<close> returns on every byte string: no exception leaves it, and what
  it returns is either \<open>None\<close> or a complete event record.
\<close>

theorem parse_packet_never_raises:
  "(\<exists>r. parse_packet lib packet = Inr r)
   \<and> (\<forall>v. parse_packet lib packet = Inr (Some v) \<longrightarrow> complete_record v)"
  using parse_packet_total [of lib packet] parse_packet_complete [of lib packet] by blast

lemma le_bytes_numeral:
  "le_bytes (numeral k) v = word_of_int v # le_bytes (pred_numeral k) (drop_bit 8 v)"
  by (simp add: numeral_eq_Suc)

lemma le_bytes_1: "le_bytes 1 v = [word_of_int v]"
  by simp

lemma heartbeat_payload:
  "struct_pack [FH, FQ] [VInt 7, VInt 1000] = Inr [7, 0, 0xE8, 3, 0, 0, 0, 0, 0, 0]"
  by (simp add: struct_pack_def le_bytes_numeral le_bytes_1 drop_bit_eq_div)

lemma parse_heartbeat_example:
  "parse_heartbeat_packet [7, 0, 0xE8, 3, 0, 0, 0, 0, 0, 0]
   = Inr (JDict [(''type'', JStr ''heartbeat''), (''sequence'', JInt 7),
                 (''timestamp'', JInt 1000)])"
  by (simp add: parse_heartbeat_packet_def struct_unpack_def)

theorem parse_packet_never_raises_witness:
  "parse_packet ref_lib (frame_of 8 [7, 0, 0xE8, 3, 0, 0, 0, 0, 0, 0])
     = Inr (Some (JDict [(''type'', JStr ''heartbeat''), (''sequence'', JInt 7),
                         (''timestamp'', JInt 1000)]))
   \<and> complete_record (JDict [(''type'', JStr ''heartbeat''), (''sequence'', JInt 7),
                         (''timestamp'', JInt 1000)])"
proof -
  have p: "parse_packet ref_lib (frame_of 8 [7, 0, 0xE8, 3, 0, 0, 0, 0, 0, 0])
     = Inr (Some (JDict [(''type'', JStr ''heartbeat''), (''sequence'', JInt 7),
                         (''timestamp'', JInt 1000)]))"
    by (simp add: parse_packet_frame_of parse_by_type_def parse_heartbeat_example)
  with parse_packet_never_raises [of ref_lib "frame_of 8 [7, 0, 0xE8, 3, 0, 0, 0, 0, 0, 0]"]
  show ?thesis by simp
qed

section \<open>Encoding\<close>

lemma packet_types_lookup:
  assumes "table_get PACKET_TYPES pt 0x00 = Inr tb" "tb \<noteq> 0"
  shows "\<exists>s. pt = JStr s \<and> s \<in> fst ` set PACKET_TYPES"
proof (cases pt)
  case (JStr s)
  with assms have "map_of PACKET_TYPES s \<noteq> None" by (auto split: option.splits)
  then have "s \<in> fst ` set PACKET_TYPES" by (simp add: map_of_eq_None_iff)
  with JStr show ?thesis by simp
qed (use assms in auto)

lemma create_packet_falls_back:
  "create_packet lib h now event_data = Inr r \<Longrightarrow> create_json_packet lib h event_data = Inr r"
proof -
  assume a: "create_packet lib h now event_data = Inr r"
  let ?pt = "dict_get event_data ''type'' (JStr [])"
  from a obtain ts where "py_int lib (dict_get event_data ''timestamp'' (JFloat (now * 1000))) = Inr ts"
    by (auto simp add: create_packet_def Let_def split: sum.splits)
  moreover from a obtain tb where tb: "table_get PACKET_TYPES ?pt 0x00 = Inr tb"
    by (auto simp add: create_packet_def Let_def split: sum.splits)
  moreover have "tb \<noteq> 0 \<Longrightarrow> ?pt \<noteq> JStr ''mouse_move'' \<and> ?pt \<noteq> JStr ''mouse_click''
      \<and> ?pt \<noteq> JStr ''key_press'' \<and> ?pt \<noteq> JStr ''key_release''
      \<and> ?pt \<noteq> JStr ''mouse_scroll'' \<and> ?pt \<noteq> JStr ''control_switch''"
    using packet_types_lookup [OF tb] by (auto simp add: PACKET_TYPES_def)
  ultimately show ?thesis
    using a by (auto simp add: create_packet_def Let_def split: if_splits)
qed

lemma or_flag_FF: "(0xFF :: int) OR 0x80 = 0xFF"
  by simp

lemma create_json_packet_type:
  assumes "create_json_packet lib h event_data = Inr (frame, h')"
  shows "\<exists>p. frame = frame_of 0xFF p"
proof -
  from assms obtain payload where "build_packet lib h 0xFF payload = Inr (frame, h')"
    by (auto simp add: create_json_packet_def split: option.splits sum.splits)
  from build_packet_cases [OF this] show ?thesis
    by (auto simp add: or_flag_FF)
qed

text \<open>
  C1. Whatever event \<open>create_packet\<close> accepts, \<open>parse_packet\<close> returns \<open>None\<close> on the
  frame it built: the round trip never gives the record back.
\<close>

theorem create_packet_never_round_trips:
  assumes "create_packet lib h now event_data = Inr (frame, h')"
  shows "parse_packet lib frame = Inr None"
proof -
  from assms have "create_json_packet lib h event_data = Inr (frame, h')"
    by (rule create_packet_falls_back)
  then obtain p where "frame = frame_of 0xFF p"
    using create_json_packet_type by blast
  then have "2 < length frame" "frame ! 2 = 0xFF"
    by (simp_all add: length_frame_of frame_of_type)
  then show ?thesis by (rule parse_packet_FF)
qed

lemma move_event_plain: "ref_plain (JDict move_event)"
  by code_simp

lemma move_event_length: "length (ref_text (JDict move_event)) = 59"
  by code_simp

lemma create_json_packet_short:
  assumes "json_dumps lib (JDict e) = Some js" "length js \<le> 60"
    "0 \<le> packet_sequence h" "packet_sequence h < 65536"
  shows "create_json_packet lib h e
         = Inr (frame_of 0xFF (le_bytes 2 (packet_sequence h) @ le_bytes 2 (int (length js)) @ js),
                bump h)"
proof -
  have "\<not> (compression_enabled h \<and>
            64 < length (le_bytes 2 (packet_sequence h) @ le_bytes 2 (int (length js)) @ js))"
    using assms(2) by (simp add: length_le_bytes)
  then have "build_packet lib h 0xFF (le_bytes 2 (packet_sequence h) @ le_bytes 2 (int (length js)) @ js)
     = Inr (frame_of 0xFF (le_bytes 2 (packet_sequence h) @ le_bytes 2 (int (length js)) @ js), bump h)"
    by (rule build_packet_plain) simp_all
  then show ?thesis
    using assms by (simp add: create_json_packet_def struct_pack_HH)
qed

lemma create_packet_move_event:
  "create_packet lib h now move_event = create_json_packet lib h move_event"
  by (simp add: create_packet_def move_event_def dict_get_def PACKET_TYPES_def)

lemma move_event_dumps:
  "json_dumps ref_lib (JDict move_event) = Some (str_bytes (ref_text (JDict move_event)))"
  using move_event_plain by (simp only: ref_lib_def ref_dumps_def pylib.simps if_True)

lemma move_event_bytes: "length (str_bytes (ref_text (JDict move_event))) = 59"
  by (simp only: str_bytes_def length_map move_event_length)

lemma init_sequence: "packet_sequence init_handler = 0"
  by (simp add: init_handler_def)

lemma init_sequence_range:
  "0 \<le> packet_sequence init_handler" "packet_sequence init_handler < 65536"
  by (simp_all add: init_handler_def)

lemma create_json_packet_move_event:
  "create_json_packet ref_lib init_handler move_event
     = Inr (frame_of 0xFF (le_bytes 2 0 @ le_bytes 2 59 @ str_bytes (ref_text (JDict move_event))),
            bump init_handler)"
proof -
  have "length (str_bytes (ref_text (JDict move_event))) \<le> 60"
    by (simp only: move_event_bytes)
  from create_json_packet_short [OF move_event_dumps this init_sequence_range]
  show ?thesis by (simp only: move_event_bytes init_sequence of_nat_numeral)
qed

theorem create_packet_never_round_trips_witness:
  "create_packet ref_lib init_handler 0 move_event
     = Inr (frame_of 0xFF (le_bytes 2 0 @ le_bytes 2 59 @ str_bytes (ref_text (JDict move_event))),
            bump init_handler)
   \<and> parse_packet ref_lib
        (frame_of 0xFF (le_bytes 2 0 @ le_bytes 2 59 @ str_bytes (ref_text (JDict move_event))))
       = Inr None"
proof -
  have c: "create_packet ref_lib init_handler 0 move_event
     = Inr (frame_of 0xFF (le_bytes 2 0 @ le_bytes 2 59 @ str_bytes (ref_text (JDict move_event))),
            bump init_handler)"
    by (simp only: create_packet_move_event create_json_packet_move_event)
  from c create_packet_never_round_trips [OF c] show ?thesis by (rule conjI)
qed

lemma scenario_A_frame:
  "struct_pack [FH, FI, FI, FQ] [VInt 0, VInt 100, VInt 200, VInt 1000]
     = Inr [0, 0, 100, 0, 0, 0, 200, 0, 0, 0, 0xE8, 3, 0, 0, 0, 0, 0, 0]"
  by (simp add: struct_pack_def le_bytes_numeral le_bytes_1 drop_bit_eq_div)

lemma scenario_A_decode:
  "length (frame_of 0x01 [0, 0, 100, 0, 0, 0, 200, 0, 0, 0, 0xE8, 3, 0, 0, 0, 0, 0, 0]) = 23
   \<and> parse_packet lib (frame_of 0x01 [0, 0, 100, 0, 0, 0, 200, 0, 0, 0, 0xE8, 3, 0, 0, 0, 0, 0, 0])
     = Inr (Some (JDict [(''type'', JStr ''mouse_move''), (''sequence'', JInt 0),
                         (''x'', JInt 100), (''y'', JInt 200), (''timestamp'', JInt 1000)]))"
  by (simp add: length_frame_of parse_packet_frame_of parse_by_type_def
        parse_mouse_movement_packet_def struct_unpack_def)

text \<open>
  C2. For the event of scenario A the encoder of mouse movements raises: its format
  has five fields and it is given four values. \<open>create_packet\<close> does not reach it and
  sends the event down the JSON path.
\<close>

theorem scenario_A_is_not_encoded:
  "create_mouse_movement_packet lib h scenario_A 1000 = Inl StructError
   \<and> create_packet lib h now scenario_A = create_json_packet lib h scenario_A"
  by (simp add: create_mouse_movement_packet_def create_packet_def scenario_A_def dict_get_def
        struct_pack_def PACKET_TYPES_def)

lemma bit7_FF: "bit (0xFF :: byte) 7"
  by (simp add: bit_iff_odd)

text \<open>
  C5. A JSON frame has the flag bit set whatever its payload: here the payload is at
  most 64 bytes long and is in the frame as it is, and bit 7 of the type byte is set.
\<close>

theorem json_frame_flag_is_set:
  assumes "json_dumps lib (JDict e) = Some js" "length js \<le> 60"
    "0 \<le> packet_sequence h" "packet_sequence h < 65536"
  shows "\<exists>frame payload.
           create_json_packet lib h e = Inr (frame, bump h)
           \<and> payload = le_bytes 2 (packet_sequence h) @ le_bytes 2 (int (length js)) @ js
           \<and> length payload \<le> 64
           \<and> drop 3 (take (length frame - 2) frame) = payload
           \<and> bit (frame ! 2) 7"
proof -
  let ?payload = "le_bytes 2 (packet_sequence h) @ le_bytes 2 (int (length js)) @ js"
  have "create_json_packet lib h e = Inr (frame_of 0xFF ?payload, bump h)"
    using assms by (rule create_json_packet_short)
  moreover have "length ?payload \<le> 64" using assms(2) by (simp add: length_le_bytes)
  moreover have "drop 3 (take (length (frame_of 0xFF ?payload) - 2) (frame_of 0xFF ?payload)) = ?payload"
    by (simp add: frame_of_def length_le_bytes)
  moreover have "bit (frame_of 0xFF ?payload ! 2) 7"
    using bit7_FF by (simp add: frame_of_type)
  ultimately show ?thesis by blast
qed

theorem json_frame_flag_is_set_witness:
  "\<exists>frame payload.
     create_json_packet ref_lib init_handler move_event = Inr (frame, bump init_handler)
     \<and> payload = le_bytes 2 0 @ le_bytes 2 59 @ str_bytes (ref_text (JDict move_event))
     \<and> length payload \<le> 64
     \<and> drop 3 (take (length frame - 2) frame) = payload
     \<and> bit (frame ! 2) 7"
proof -
  have "length (str_bytes (ref_text (JDict move_event))) \<le> 60"
    by (simp only: move_event_bytes)
  from json_frame_flag_is_set [OF move_event_dumps this init_sequence_range]
  show ?thesis by (simp only: move_event_bytes init_sequence of_nat_numeral)
qed

lemma build_packet_compressed:
  assumes "compression_enabled h" "64 < length payload" "zlib_compress lib payload = Some c"
    "length c < length payload" "0 \<le> t" "t < 128"
  shows "build_packet lib h t payload = Inr (frame_of (t OR 0x80) c, bump h)"
proof -
  have "t OR 0x80 < 2 ^ 8" by (rule OR_upper) (use assms in simp_all)
  moreover have "0 \<le> t OR 0x80" using assms by simp
  ultimately show ?thesis
    using assms by (simp add: build_packet_def Let_def frame_tail bump_def)
qed

lemma build_packet_flag:
  assumes "0 \<le> t" "t < 128" "build_packet lib h t payload = Inr (frame, h')"
  shows "(bit (frame ! 2) 7 \<longleftrightarrow>
            compression_enabled h \<and> 64 < length payload
            \<and> (\<exists>c. zlib_compress lib payload = Some c \<and> length c < length payload))
         \<and> (\<not> bit (frame ! 2) 7 \<longrightarrow> drop 3 (take (length frame - 2) frame) = payload)"
proof -
  have n: "\<not> bit (word_of_int t :: byte) 7"
  proof -
    have "t div 2 ^ 7 = 0" using assms by simp
    then have "\<not> bit t 7" by (simp add: bit_iff_odd)
    then show ?thesis by (simp add: bit_word_of_int_iff)
  qed
  have y: "bit (word_of_int (t OR 0x80) :: byte) 7"
  proof -
    have "bit (0x80 :: int) 7" by (simp add: bit_iff_odd)
    then show ?thesis by (simp add: bit_word_of_int_iff bit_or_iff)
  qed
  have pl: "\<And>u p. drop 3 (take (length (frame_of u p) - 2) (frame_of u p)) = p"
    by (simp add: frame_of_def length_le_bytes)
  show ?thesis
  proof (cases "compression_enabled h \<and> 64 < length payload
            \<and> (\<exists>c. zlib_compress lib payload = Some c \<and> length c < length payload)")
    case True
    then obtain c where c: "zlib_compress lib payload = Some c" "length c < length payload"
      by blast
    from True c assms(1,2) have "build_packet lib h t payload = Inr (frame_of (t OR 0x80) c, bump h)"
      by (intro build_packet_compressed) simp_all
    with assms(3) have "frame = frame_of (t OR 0x80) c" by simp
    then have "bit (frame ! 2) 7" using y by (simp add: frame_of_type)
    with True show ?thesis by simp
  next
    case False
    from build_packet_cases [OF assms(3)] False have "frame = frame_of t payload"
      by auto
    then have "\<not> bit (frame ! 2) 7" "drop 3 (take (length frame - 2) frame) = payload"
      using n pl by (simp_all add: frame_of_type)
    with False show ?thesis by simp
  qed
qed

section \<open>Checksums and sequence numbers\<close>

lemma crc16_bit_alt: "crc16_bit r b = (r div 2) XOR (if odd r \<noteq> b then 0xA001 else 0)"
  by (simp add: crc16_bit_def)

lemma crc_serial_step:
  "crc_shift (s XOR drop_bit k u) = crc16_bit s (bit u k) XOR drop_bit (Suc k) u"
proof -
  have o: "odd (s XOR drop_bit k u) \<longleftrightarrow> (odd s \<noteq> bit u k)"
    by (simp add: bit_iff_odd_drop_bit even_xor_iff)
  have d: "(s XOR drop_bit k u) div 2 = (s div 2) XOR drop_bit (Suc k) u"
  proof -
    have "(s XOR drop_bit k u) div 2 = drop_bit 1 (s XOR drop_bit k u)"
      by (simp add: drop_bit_eq_div)
    also have "\<dots> = drop_bit 1 s XOR drop_bit 1 (drop_bit k u)"
      by (rule bit_eqI) (simp add: bit_drop_bit_eq bit_xor_iff)
    also have "drop_bit 1 (drop_bit k u) = drop_bit (Suc k) u"
      by simp
    also have "drop_bit 1 s = s div 2"
      by (simp add: drop_bit_eq_div)
    finally show ?thesis .
  qed
  show ?thesis
    by (simp only: crc_shift_alt crc16_bit_alt o d) (simp add: xor.assoc xor.commute)
qed

lemma crc_serial_rounds:
  "(crc_shift ^^ k) (r XOR uint x)
   = foldl crc16_bit r (map (bit x) [0..<k]) XOR drop_bit k (uint x)"
proof (induction k)
  case 0
  then show ?case by simp
next
  case (Suc k)
  have "(crc_shift ^^ Suc k) (r XOR uint x)
        = crc_shift (foldl crc16_bit r (map (bit x) [0..<k]) XOR drop_bit k (uint x))"
    using Suc by simp
  also have "\<dots> = crc16_bit (foldl crc16_bit r (map (bit x) [0..<k])) (bit (uint x) k)
                  XOR drop_bit (Suc k) (uint x)"
    by (rule crc_serial_step)
  also have "bit (uint x) k = bit x k"
    by (auto simp add: bit_uint_iff dest: bit_imp_le_length)
  finally show ?case by simp
qed

lemma crc16_byte_eq: "crc16_byte r x = crc_byte r x"
proof -
  have "drop_bit 8 (uint x) = 0"
    using uint_lt2p [of x] by (simp add: drop_bit_eq_div)
  then show ?thesis
    using crc_serial_rounds [of 8 r x] by (simp add: crc16_byte_def crc_byte_def)
qed

lemma crc16_spec_eq: "crc16_spec data = calculate_checksum data"
proof -
  have "crc16_byte = crc_byte" by (intro ext) (rule crc16_byte_eq)
  then show ?thesis by (simp add: crc16_spec_def calculate_checksum_def)
qed

lemma frame_of_checksum:
  "drop (length (frame_of t p) - 2) (frame_of t p)
   = le_bytes 2 (crc16_spec (take (length (frame_of t p) - 2) (frame_of t p)))"
  by (simp add: frame_of_def length_le_bytes crc16_spec_eq)

lemma create_batch_packet_frame:
  assumes "create_batch_packet lib h events = Inr (frame, h')"
  shows "\<exists>js. json_dumps lib (JList (map JDict events)) = Some js
            \<and> frame = frame_of 0xFE (le_bytes 2 (packet_sequence h) @ le_bytes 2 (int (length js)) @ js)
            \<and> h' = bump h
            \<and> 0 \<le> packet_sequence h \<and> packet_sequence h < 65536"
proof -
  from assms obtain js where js: "json_dumps lib (JList (map JDict events)) = Some js"
    by (auto simp add: create_batch_packet_def split: option.splits)
  from assms js have r: "0 \<le> packet_sequence h \<and> packet_sequence h < 65536
      \<and> 0 \<le> int (length js) \<and> int (length js) < 65536"
    by (auto simp add: create_batch_packet_def struct_pack_HH split: if_splits)
  with assms js have "(if (0::int) \<le> 0xFE \<and> (0xFE::int) < 256
       then Inr (frame_of 0xFE (le_bytes 2 (packet_sequence h) @ le_bytes 2 (int (length js)) @ js), bump h)
       else Inl StructError) = Inr (frame, h')"
    by (simp add: create_batch_packet_def struct_pack_HH Let_def frame_tail bump_def)
  with js r show ?thesis by auto
qed

text \<open>
  C4. The last two bytes of every frame that the codec builds are the CRC of the
  bytes before them, the CRC being the 16-bit one of the specification (initial value
  \<open>0xFFFF\<close>, reflected polynomial \<open>0xA001\<close>, least significant bit first); and
  \<open>parse_packet\<close> rejects the frame after any one of its bits has been flipped.
\<close>

theorem single_bit_errors_are_rejected:
  assumes "build_packet lib h t payload = Inr (frame, h')
           \<or> create_batch_packet lib h events = Inr (frame, h')"
    and "i < 8 * length frame"
  shows "drop (length frame - 2) frame = le_bytes 2 (crc16_spec (take (length frame - 2) frame))
         \<and> parse_packet lib (flip_frame_bit frame i) = Inr None"
proof -
  from assms(1) obtain u p where "frame = frame_of u p"
    using build_packet_cases create_batch_packet_frame by blast
  with assms(2) show ?thesis
    by (simp only: frame_of_checksum flip_rejected simp_thms)
qed

theorem single_bit_errors_are_rejected_witness:
  "(build_packet ref_lib init_handler 0x08 heartbeat_payload_7
      = Inr (frame_of 0x08 heartbeat_payload_7, bump init_handler)
    \<or> create_batch_packet ref_lib init_handler [] = Inr (frame_of 0x08 heartbeat_payload_7, bump init_handler))
   \<and> (17 :: nat) < 8 * length (frame_of 0x08 heartbeat_payload_7)
   \<and> drop (length (frame_of 0x08 heartbeat_payload_7) - 2) (frame_of 0x08 heartbeat_payload_7)
       = le_bytes 2 (crc16_spec (take (length (frame_of 0x08 heartbeat_payload_7) - 2)
                                    (frame_of 0x08 heartbeat_payload_7)))
   \<and> parse_packet ref_lib (flip_frame_bit (frame_of 0x08 heartbeat_payload_7) 17) = Inr None"
proof -
  have b: "build_packet ref_lib init_handler 0x08 heartbeat_payload_7
      = Inr (frame_of 0x08 heartbeat_payload_7, bump init_handler)"
    by (rule build_packet_plain) (simp_all add: heartbeat_payload_7_def)
  then have d: "build_packet ref_lib init_handler 0x08 heartbeat_payload_7
      = Inr (frame_of 0x08 heartbeat_payload_7, bump init_handler)
    \<or> create_batch_packet ref_lib init_handler [] = Inr (frame_of 0x08 heartbeat_payload_7, bump init_handler)"
    by (rule disjI1)
  have l: "(17 :: nat) < 8 * length (frame_of 0x08 heartbeat_payload_7)"
    by (simp add: length_frame_of heartbeat_payload_7_def)
  from d l single_bit_errors_are_rejected [OF d l] show ?thesis by blast
qed

lemma build_packet_carries:
  assumes "build_packet lib h t (le_bytes 2 s @ rest) = Inr (frame, h')"
  shows "carries_sequence lib frame s \<and> h' = bump h"
  using build_packet_cases [OF assms] unfolding carries_sequence_def by blast

lemma struct_pack_HQ:
  "struct_pack [FH, FQ] [VInt a, VInt b] =
     (if 0 \<le> a \<and> a < 65536 \<and> 0 \<le> b \<and> b < 18446744073709551616
      then Inr (le_bytes 2 a @ le_bytes 8 b) else Inl StructError)"
  by (simp add: struct_pack_def)

lemma run_call_step:
  assumes "run_call lib h c = Inr (frame, h')"
  shows "carries_sequence lib frame (packet_sequence h) \<and> h' = bump h
         \<and> 0 \<le> packet_sequence h \<and> packet_sequence h < 65536"
proof (cases c)
  case (Event e now)
  with assms have "create_json_packet lib h e = Inr (frame, h')"
    by (simp add: create_packet_falls_back)
  then obtain js where
    r: "0 \<le> packet_sequence h \<and> packet_sequence h < 65536" and
    b: "build_packet lib h 0xFF (le_bytes 2 (packet_sequence h) @ le_bytes 2 (int (length js)) @ js)
        = Inr (frame, h')"
    by (auto simp add: create_json_packet_def struct_pack_HH split: option.splits if_splits)
  from build_packet_carries [OF b] r show ?thesis by simp
next
  case (Heartbeat ms)
  with assms obtain
    r: "0 \<le> packet_sequence h \<and> packet_sequence h < 65536" and
    b: "build_packet lib h 0x08 (le_bytes 2 (packet_sequence h) @ le_bytes 8 ms) = Inr (frame, h')"
    by (auto simp add: create_heartbeat_packet_def struct_pack_HQ split: if_splits)
  from build_packet_carries [OF b] r show ?thesis by simp
next
  case (Batch es)
  with assms have "create_batch_packet lib h es = Inr (frame, h')" by simp
  from create_batch_packet_frame [OF this] show ?thesis
    unfolding carries_sequence_def by blast
qed

lemma bump_range:
  "0 \<le> packet_sequence (bump h) \<and> packet_sequence (bump h) < 65536"
  by (simp add: bump_def)

lemma bump_sequence: "packet_sequence (bump h) = (packet_sequence h + 1) mod 65536"
  by (simp add: bump_def)

text \<open>
  C7. In a run of consecutive successful encode calls on one handler whose counter
  is \<open>n\<close>, the frame of call number \<open>i\<close> carries the sequence number
  \<open>(n + i) mod 65536\<close>, and the counter ends at \<open>(n + k) mod 65536\<close> after \<open>k\<close>
  calls.
\<close>

theorem sequence_numbers_count_up:
  assumes "run_calls lib h cs = Inr (frames, h')"
    and "0 \<le> packet_sequence h" and "packet_sequence h < 65536"
  shows "length frames = length cs
         \<and> packet_sequence h' = (packet_sequence h + int (length cs)) mod 65536
         \<and> (\<forall>i<length cs. carries_sequence lib (frames ! i) ((packet_sequence h + int i) mod 65536))"
  using assms
proof (induction cs arbitrary: h frames)
  case Nil
  then show ?case by simp
next
  case (Cons c cs)
  from Cons.prems(1) obtain f h1 fs where
    c: "run_call lib h c = Inr (f, h1)" and
    r: "run_calls lib h1 cs = Inr (fs, h')" and
    fr: "frames = f # fs"
    by (auto split: sum.splits)
  from run_call_step [OF c] have
    s: "carries_sequence lib f (packet_sequence h)" and h1: "h1 = bump h"
    by simp_all
  have ih: "length fs = length cs
      \<and> packet_sequence h' = (packet_sequence h1 + int (length cs)) mod 65536
      \<and> (\<forall>i<length cs. carries_sequence lib (fs ! i) ((packet_sequence h1 + int i) mod 65536))"
    using r h1 bump_range [of h] by (intro Cons.IH) simp_all
  have e: "\<And>j. (packet_sequence h1 + int j) mod 65536 = (packet_sequence h + int (Suc j)) mod 65536"
    by (simp add: h1 bump_sequence mod_simps add.assoc)
  have "\<forall>i<length (c # cs). carries_sequence lib (frames ! i) ((packet_sequence h + int i) mod 65536)"
  proof (intro allI impI)
    fix i assume "i < length (c # cs)"
    show "carries_sequence lib (frames ! i) ((packet_sequence h + int i) mod 65536)"
    proof (cases i)
      case 0
      with s Cons.prems(2,3) show ?thesis by (simp add: fr)
    next
      case (Suc j)
      with \<open>i < length (c # cs)\<close> have "j < length cs" by simp
      with ih have "carries_sequence lib (fs ! j) ((packet_sequence h1 + int j) mod 65536)" by simp
      then show ?thesis by (simp only: e Suc fr nth_Cons_Suc)
    qed
  qed
  moreover have "packet_sequence h' = (packet_sequence h + int (length (c # cs))) mod 65536"
    using ih e [of "length cs"] by simp
  ultimately show ?case using ih fr by simp
qed

lemma create_heartbeat_packet_ok:
  assumes "0 \<le> packet_sequence h" "packet_sequence h < 65536" "0 \<le> ms" "ms < 18446744073709551616"
  shows "create_heartbeat_packet lib h ms
         = Inr (frame_of 0x08 (le_bytes 2 (packet_sequence h) @ le_bytes 8 ms), bump h)"
proof -
  have "build_packet lib h 0x08 (le_bytes 2 (packet_sequence h) @ le_bytes 8 ms)
        = Inr (frame_of 0x08 (le_bytes 2 (packet_sequence h) @ le_bytes 8 ms), bump h)"
    by (rule build_packet_plain) (simp_all add: length_le_bytes)
  with assms show ?thesis by (simp add: create_heartbeat_packet_def struct_pack_HQ)
qed

lemma wrap_run:
  "run_calls ref_lib wrap_handler [Heartbeat 1000, Heartbeat 1000]
   = Inr ([frame_of 0x08 (le_bytes 2 65535 @ le_bytes 8 1000),
           frame_of 0x08 (le_bytes 2 0 @ le_bytes 8 1000)], bump (bump wrap_handler))"
proof -
  have a: "create_heartbeat_packet ref_lib wrap_handler 1000
      = Inr (frame_of 0x08 (le_bytes 2 65535 @ le_bytes 8 1000), bump wrap_handler)"
    using create_heartbeat_packet_ok [of wrap_handler 1000 ref_lib]
    by (simp add: wrap_handler_def)
  have s: "packet_sequence (bump wrap_handler) = 0"
    by (simp add: bump_def wrap_handler_def)
  have b: "create_heartbeat_packet ref_lib (bump wrap_handler) 1000
      = Inr (frame_of 0x08 (le_bytes 2 0 @ le_bytes 8 1000), bump (bump wrap_handler))"
    using create_heartbeat_packet_ok [of "bump wrap_handler" 1000 ref_lib]
    by (simp add: s)
  show ?thesis by (simp add: a b)
qed

theorem sequence_numbers_count_up_witness:
  "run_calls ref_lib wrap_handler [Heartbeat 1000, Heartbeat 1000]
     = Inr ([frame_of 0x08 (le_bytes 2 65535 @ le_bytes 8 1000),
             frame_of 0x08 (le_bytes 2 0 @ le_bytes 8 1000)], bump (bump wrap_handler))
   \<and> 0 \<le> packet_sequence wrap_handler \<and> packet_sequence wrap_handler < 65536
   \<and> packet_sequence (bump (bump wrap_handler)) = 1
   \<and> carries_sequence ref_lib (frame_of 0x08 (le_bytes 2 65535 @ le_bytes 8 1000)) 65535
   \<and> carries_sequence ref_lib (frame_of 0x08 (le_bytes 2 0 @ le_bytes 8 1000)) 0"
proof -
  have r: "0 \<le> packet_sequence wrap_handler" "packet_sequence wrap_handler < 65536"
    and v: "packet_sequence wrap_handler = 65535"
    by (simp_all add: wrap_handler_def)
  from sequence_numbers_count_up [OF wrap_run r] have
    t: "packet_sequence (bump (bump wrap_handler)) = (packet_sequence wrap_handler + 2) mod 65536"
    and c: "\<forall>i<2. carries_sequence ref_lib
         ([frame_of 0x08 (le_bytes 2 65535 @ le_bytes 8 1000),
           frame_of 0x08 (le_bytes 2 0 @ le_bytes 8 1000)] ! i)
         ((packet_sequence wrap_handler + int i) mod 65536)"
    by simp_all
  have c0: "carries_sequence ref_lib (frame_of 0x08 (le_bytes 2 65535 @ le_bytes 8 1000)) 65535"
    using spec [OF c, of 0] by (simp add: v)
  have c1: "carries_sequence ref_lib (frame_of 0x08 (le_bytes 2 0 @ le_bytes 8 1000)) 0"
    using spec [OF c, of 1] by (simp add: v)
  from t have "packet_sequence (bump (bump wrap_handler)) = 1" by (simp add: v)
  with wrap_run r c0 c1 show ?thesis by blast
qed

end
